theory Spec2Isabelle
  imports Complex_Main "HOL-Library.Word"
begin

section \<open>JavaScript values\<close>

text \<open>
  The clock of \<^verbatim>\<open>src/App.tsx\<close> keeps two counters and the active player in React state,
  and a copy of the counters in \<^verbatim>\<open>localStorage\<close> under the key
  \<^verbatim>\<open>scrabbleTimerState\<close>. TypeScript's types are erased when the program runs: what
  \<^verbatim>\<open>JSON.parse\<close> returns has type \<^verbatim>\<open>any\<close>, so the counters hold whatever value the
  stored text denotes. The model therefore keeps JavaScript values, not numbers, in the state.

  A JavaScript string is a sequence of UTF-16 code units. A number is kept as a rational:
  the parser gives every JSON number literal its exact value (the rounding of a literal to
  binary64, and its overflow to infinity, are outside the model), and the sum \<^verbatim>\<open>prev + 1\<close>
  of the timer callback follows binary64 on the integers.
\<close>

type_synonym jsstring = "16 word list"

definition js :: "string \<Rightarrow> jsstring" where
  "js s = map (\<lambda>c. of_nat (of_char c)) s"

datatype Player = player1 | player2

datatype json =
    JNull
  | JBool bool
  | JNum rat
  | JStr jsstring
  | JArr "json list"
  | JObj "(jsstring \<times> json) list"

text \<open>Truthiness, as the conditions \<^verbatim>\<open>if (savedState)\<close> and \<^verbatim>\<open>p1Time || 0\<close> test it.\<close>

fun truthy :: "json \<Rightarrow> bool" where
  "truthy JNull = False"
| "truthy (JBool b) = b"
| "truthy (JNum x) = (x \<noteq> 0)"
| "truthy (JStr s) = (s \<noteq> [])"
| "truthy (JArr xs) = True"
| "truthy (JObj kvs) = True"

subsection \<open>JSON.parse\<close>

text \<open>
  The grammar of ECMA-404, read by recursive descent. Every function returns the value it
  read and the text after it; \<open>None\<close> is the \<^verbatim>\<open>SyntaxError\<close> of \<^verbatim>\<open>JSON.parse\<close>. An object
  is kept as the list of its members in the order of the text; of two members with the same
  name the later one counts. The limits of an engine (how deeply nested a text it can read)
  are outside the model.
\<close>

definition is_ws :: "16 word \<Rightarrow> bool" where
  "is_ws c = (c = 0x20 \<or> c = 0x09 \<or> c = 0x0A \<or> c = 0x0D)"

definition skip_ws :: "jsstring \<Rightarrow> jsstring" where
  "skip_ws s = dropWhile is_ws s"

definition is_digit :: "16 word \<Rightarrow> bool" where
  "is_digit c = (0x30 \<le> c \<and> c \<le> 0x39)"

definition digit_val :: "16 word \<Rightarrow> nat" where
  "digit_val c = unat c - 48"

definition digits_val :: "jsstring \<Rightarrow> nat" where
  "digits_val ds = foldl (\<lambda>a c. 10 * a + digit_val c) 0 ds"

definition hex_val :: "16 word \<Rightarrow> nat option" where
  "hex_val c =
     (if 0x30 \<le> c \<and> c \<le> 0x39 then Some (unat c - 48)
      else if 0x41 \<le> c \<and> c \<le> 0x46 then Some (unat c - 55)
      else if 0x61 \<le> c \<and> c \<le> 0x66 then Some (unat c - 87)
      else None)"

definition hex4 :: "16 word \<Rightarrow> 16 word \<Rightarrow> 16 word \<Rightarrow> 16 word \<Rightarrow> 16 word option" where
  "hex4 a b c d =
     (case (hex_val a, hex_val b, hex_val c, hex_val d) of
        (Some h3, Some h2, Some h1, Some h0) \<Rightarrow> Some (of_nat (((h3 * 16 + h2) * 16 + h1) * 16 + h0))
      | _ \<Rightarrow> None)"

text \<open>The single-character escapes: quote, backslash, slash, b, f, n, r, t.\<close>

definition unescape :: "16 word \<Rightarrow> 16 word option" where
  "unescape e =
     (if e = 0x22 then Some 0x22
      else if e = 0x5C then Some 0x5C
      else if e = 0x2F then Some 0x2F
      else if e = 0x62 then Some 0x08
      else if e = 0x66 then Some 0x0C
      else if e = 0x6E then Some 0x0A
      else if e = 0x72 then Some 0x0D
      else if e = 0x74 then Some 0x09
      else None)"

definition consume :: "16 word \<Rightarrow> (jsstring \<times> jsstring) option \<Rightarrow> (jsstring \<times> jsstring) option" where
  "consume u res = (case res of None \<Rightarrow> None | Some (s, r) \<Rightarrow> Some (u # s, r))"

text \<open>A string literal, from the character after its opening quote.\<close>

fun scan_string :: "jsstring \<Rightarrow> (jsstring \<times> jsstring) option" where
  "scan_string [] = None"
| "scan_string (c # cs) =
     (if c = 0x22 then Some ([], cs)
      else if c = 0x5C then
        (case cs of
           [] \<Rightarrow> None
         | e # r \<Rightarrow>
             if e = 0x75 then
               (case r of
                  h3 # h2 # h1 # h0 # r' \<Rightarrow>
                    (case hex4 h3 h2 h1 h0 of
                       None \<Rightarrow> None
                     | Some u \<Rightarrow> consume u (scan_string r'))
                | _ \<Rightarrow> None)
             else
               (case unescape e of
                  None \<Rightarrow> None
                | Some u \<Rightarrow> consume u (scan_string r)))
      else if c < 0x20 then None
      else consume c (scan_string cs))"

text \<open>
  A number literal: an optional minus, an integer part without leading zeros, an optional
  fraction, an optional exponent.
\<close>

definition scan_int_part :: "jsstring \<Rightarrow> (jsstring \<times> jsstring) option" where
  "scan_int_part s =
     (case s of
        [] \<Rightarrow> None
      | c # r \<Rightarrow>
          if c = 0x30 then Some ([c], r)
          else if is_digit c then Some (takeWhile is_digit s, dropWhile is_digit s)
          else None)"

definition scan_fraction :: "jsstring \<Rightarrow> (jsstring \<times> jsstring) option" where
  "scan_fraction s =
     (case s of
        [] \<Rightarrow> Some ([], s)
      | c # r \<Rightarrow>
          if c = 0x2E then
            (if takeWhile is_digit r = [] then None
             else Some (takeWhile is_digit r, dropWhile is_digit r))
          else Some ([], s))"

definition scan_exponent :: "jsstring \<Rightarrow> (int \<times> jsstring) option" where
  "scan_exponent s =
     (case s of
        [] \<Rightarrow> Some (0, s)
      | c # r \<Rightarrow>
          if c = 0x65 \<or> c = 0x45 then
            (let neg = (case r of [] \<Rightarrow> False | g # _ \<Rightarrow> g = 0x2D);
                 r' = (case r of [] \<Rightarrow> r | g # t \<Rightarrow> if g = 0x2D \<or> g = 0x2B then t else r)
             in if takeWhile is_digit r' = [] then None
                else Some ((if neg then - int (digits_val (takeWhile is_digit r'))
                            else int (digits_val (takeWhile is_digit r'))),
                           dropWhile is_digit r'))
          else Some (0, s))"

definition pow10 :: "int \<Rightarrow> rat" where
  "pow10 e = (if e < 0 then 1 / 10 ^ nat (- e) else 10 ^ nat e)"

definition scan_number :: "jsstring \<Rightarrow> (rat \<times> jsstring) option" where
  "scan_number s =
     (let neg = (case s of [] \<Rightarrow> False | c # _ \<Rightarrow> c = 0x2D);
          s1 = (if neg then tl s else s)
      in case scan_int_part s1 of
           None \<Rightarrow> None
         | Some (ip, s2) \<Rightarrow>
             (case scan_fraction s2 of
                None \<Rightarrow> None
              | Some (fp, s3) \<Rightarrow>
                  (case scan_exponent s3 of
                     None \<Rightarrow> None
                   | Some (e, s4) \<Rightarrow>
                       Some ((if neg then - 1 else 1)
                               * of_nat (digits_val (ip @ fp))
                               * pow10 (e - int (length fp)),
                             s4))))"

text \<open>
  Values, array elements and object members. The tests on the length of the remaining
  text always succeed (lemmas \<open>parse_elements_plain\<close> and \<open>parse_members_plain\<close> below
  give the equations without them); they are what makes the recursion visibly well-founded.
\<close>

function parse_value :: "jsstring \<Rightarrow> (json \<times> jsstring) option"
  and parse_elements :: "json list \<Rightarrow> jsstring \<Rightarrow> (json \<times> jsstring) option"
  and parse_members :: "(jsstring \<times> json) list \<Rightarrow> jsstring \<Rightarrow> (json \<times> jsstring) option"
where
  "parse_value s =
     (case skip_ws s of
        [] \<Rightarrow> None
      | c # r \<Rightarrow>
          if c = 0x7B then
            (case skip_ws r of
               [] \<Rightarrow> None
             | d # r' \<Rightarrow> if d = 0x7D then Some (JObj [], r') else parse_members [] r)
          else if c = 0x5B then
            (case skip_ws r of
               [] \<Rightarrow> None
             | d # r' \<Rightarrow> if d = 0x5D then Some (JArr [], r') else parse_elements [] r)
          else if c = 0x22 then
            (case scan_string r of None \<Rightarrow> None | Some (str, r') \<Rightarrow> Some (JStr str, r'))
          else if take 4 (c # r) = js ''true'' then Some (JBool True, drop 4 (c # r))
          else if take 5 (c # r) = js ''false'' then Some (JBool False, drop 5 (c # r))
          else if take 4 (c # r) = js ''null'' then Some (JNull, drop 4 (c # r))
          else
            (case scan_number (c # r) of None \<Rightarrow> None | Some (x, r') \<Rightarrow> Some (JNum x, r')))"
| "parse_elements acc s =
     (case parse_value s of
        None \<Rightarrow> None
      | Some (v, r) \<Rightarrow>
          if length r < length s then
            (case skip_ws r of
               [] \<Rightarrow> None
             | d # r' \<Rightarrow>
                 if d = 0x2C then parse_elements (acc @ [v]) r'
                 else if d = 0x5D then Some (JArr (acc @ [v]), r')
                 else None)
          else None)"
| "parse_members acc s =
     (case skip_ws s of
        [] \<Rightarrow> None
      | q # r0 \<Rightarrow>
          if q = 0x22 then
            (case scan_string r0 of
               None \<Rightarrow> None
             | Some (k, r1) \<Rightarrow>
                 (case skip_ws r1 of
                    [] \<Rightarrow> None
                  | c # r2 \<Rightarrow>
                      if c = 0x3A \<and> length r2 < length s then
                        (case parse_value r2 of
                           None \<Rightarrow> None
                         | Some (v, r) \<Rightarrow>
                             if length r < length r2 then
                               (case skip_ws r of
                                  [] \<Rightarrow> None
                                | d # r' \<Rightarrow>
                                    if d = 0x2C then parse_members (acc @ [(k, v)]) r'
                                    else if d = 0x7D then Some (JObj (acc @ [(k, v)]), r')
                                    else None)
                             else None)
                      else None))
          else None)"
  by pat_completeness auto

termination
proof (relation "measure (\<lambda>x. case x of
          Inl s \<Rightarrow> 2 * length s
        | Inr (Inl (acc, s)) \<Rightarrow> 2 * length s + 1
        | Inr (Inr (acc, s)) \<Rightarrow> 2 * length s + 1)", goal_cases)
  have shorter: "length r < length s" if "skip_ws s = c # r" for s c and r :: jsstring
    using that length_dropWhile_le [of is_ws s] by (simp add: skip_ws_def)
  {
    case 1
    show ?case by simp
  next
    case (2 s c r d r')
    then show ?case using shorter [of s c r] by simp
  next
    case (3 s c r d r')
    then show ?case using shorter [of s c r] by simp
  next
    case (4 acc s)
    show ?case by simp
  next
    case (5 acc s x v r d r')
    then show ?case using shorter [of r d r'] by simp
  next
    case (6 acc s q r0 x k r1 c r2)
    then show ?case by simp
  next
    case (7 acc s q r0 x k r1 c r2 y v r d r')
    then show ?case using shorter [of r d r'] by simp
  }
qed

declare parse_value.simps [simp del] parse_elements.simps [simp del] parse_members.simps [simp del]

definition JSON_parse :: "jsstring \<Rightarrow> json option" where
  "JSON_parse s =
     (case parse_value s of
        None \<Rightarrow> None
      | Some (v, r) \<Rightarrow> if skip_ws r = [] then Some v else None)"

subsection \<open>JSON.stringify of the saved object\<close>

text \<open>
  The save effect serialises \<^verbatim>\<open>{ p1Time: player1Time, p2Time: player2Time }\<close>. An integer
  is written in decimal digits (JavaScript changes to exponent notation from \<open>10 ^ 21\<close> on,
  which reads back as the same number; the model keeps the digits). What the platform
  writes for a counter that is neither an integer nor a boolean nor \<^verbatim>\<open>null\<close> depends on
  binary64 formatting and on the property order of objects; the model leaves it
  unspecified, so nothing proved below depends on it.
\<close>

definition digit_char :: "nat \<Rightarrow> 16 word" where
  "digit_char d = of_nat (48 + d)"

fun show_nat :: "nat \<Rightarrow> jsstring" where
  "show_nat n =
     (if n < 10 then [digit_char n]
      else show_nat (n div 10) @ [digit_char (n mod 10)])"

declare show_nat.simps [simp del]

definition show_int :: "int \<Rightarrow> jsstring" where
  "show_int i = (if i < 0 then 0x2D # show_nat (nat (- i)) else show_nat (nat i))"

definition is_integer :: "rat \<Rightarrow> bool" where
  "is_integer x = (x = of_int \<lfloor>x\<rfloor>)"

definition JSON_stringify_value :: "json \<Rightarrow> jsstring" where
  "JSON_stringify_value v =
     (case v of
        JNum x \<Rightarrow> if is_integer x then show_int \<lfloor>x\<rfloor> else undefined v
      | JNull \<Rightarrow> js ''null''
      | JBool b \<Rightarrow> if b then js ''true'' else js ''false''
      | _ \<Rightarrow> undefined v)"

definition stateToSave :: "json \<Rightarrow> json \<Rightarrow> jsstring" where
  "stateToSave p1 p2 =
     js ''{\"p1Time\":'' @ JSON_stringify_value p1
       @ js '',\"p2Time\":'' @ JSON_stringify_value p2 @ js ''}''"

section \<open>The component\<close>

subsection \<open>State and environment\<close>

text \<open>
  The three \<^verbatim>\<open>useState\<close> cells, the \<^verbatim>\<open>localStorage\<close> entry of the key
  \<^verbatim>\<open>scrabbleTimerState\<close> (\<open>None\<close> when the key is absent), and the timers: the intervals
  the platform keeps alive, each with the \<^verbatim>\<open>activePlayer\<close> its callback captured, and the
  variable \<^verbatim>\<open>interval\<close> of the timer effect's latest run.
\<close>

record world =
  player1Time :: json
  player2Time :: json
  activePlayer :: "Player option"
  storage :: "jsstring option"
  timers :: "(nat \<times> Player) list"
  intervalVar :: "nat option"
  nextTimer :: nat

subsection \<open>Loading\<close>

datatype js_error = SyntaxError | TypeError

text \<open>
  Reading a property of a parsed value, as the destructuring
  \<^verbatim>\<open>const { p1Time, p2Time } = JSON.parse(savedState)\<close> does: \<^verbatim>\<open>null\<close> cannot be
  destructured, an object gives the last member of that name, every other value gives
  \<^verbatim>\<open>undefined\<close> (here \<open>None\<close>).
\<close>

definition get_prop :: "json \<Rightarrow> jsstring \<Rightarrow> js_error + json option" where
  "get_prop v k =
     (case v of
        JNull \<Rightarrow> Inl TypeError
      | JObj kvs \<Rightarrow> Inr (map_of (rev kvs) k)
      | _ \<Rightarrow> Inr None)"

text \<open>\<^verbatim>\<open>x || 0\<close>\<close>

definition or_zero :: "json option \<Rightarrow> json" where
  "or_zero x = (case x of None \<Rightarrow> JNum 0 | Some v \<Rightarrow> if truthy v then v else JNum 0)"

text \<open>
  The body of the \<^verbatim>\<open>try\<close> block of the load effect. \<open>Inr None\<close>: nothing was stored and no
  counter is set; \<open>Inr (Some (a, b))\<close>: \<^verbatim>\<open>setPlayer1Time(a)\<close> and \<^verbatim>\<open>setPlayer2Time(b)\<close> are
  called; \<open>Inl e\<close>: the exception \<open>e\<close> is thrown.
\<close>

definition load_try :: "jsstring option \<Rightarrow> js_error + (json \<times> json) option" where
  "load_try savedState =
     (case savedState of
        None \<Rightarrow> Inr None
      | Some s \<Rightarrow>
          if s = [] then Inr None
          else
            (case JSON_parse s of
               None \<Rightarrow> Inl SyntaxError
             | Some v \<Rightarrow>
                 (case get_prop v (js ''p1Time'') of
                    Inl e \<Rightarrow> Inl e
                  | Inr p1Time \<Rightarrow>
                      (case get_prop v (js ''p2Time'') of
                         Inl e \<Rightarrow> Inl e
                       | Inr p2Time \<Rightarrow> Inr (Some (or_zero p1Time, or_zero p2Time))))))"

text \<open>
  The load effect: the \<^verbatim>\<open>catch\<close> clause removes the stored item. The result is the
  counters handed to the setters, if any, and the storage afterwards. The setters only
  queue their update: it takes effect at the next render.
\<close>

definition loadEffect :: "jsstring option \<Rightarrow> (json \<times> json) option \<times> jsstring option" where
  "loadEffect st =
     (case load_try st of
        Inl e \<Rightarrow> (None, None)
      | Inr queued \<Rightarrow> (queued, st))"

subsection \<open>Saving, the timer effect\<close>

definition saveEffect :: "world \<Rightarrow> world" where
  "saveEffect w = w\<lparr>storage := Some (stateToSave (player1Time w) (player2Time w))\<rparr>"

text \<open>The timer effect and its cleanup.\<close>

definition timerEffect :: "world \<Rightarrow> world" where
  "timerEffect w =
     (case activePlayer w of
        None \<Rightarrow> w\<lparr>intervalVar := None\<rparr>
      | Some p \<Rightarrow>
          w\<lparr>timers := timers w @ [(nextTimer w, p)],
            intervalVar := Some (nextTimer w),
            nextTimer := nextTimer w + 1\<rparr>)"

definition timerCleanup :: "world \<Rightarrow> world" where
  "timerCleanup w =
     (case intervalVar w of
        None \<Rightarrow> w
      | Some i \<Rightarrow> w\<lparr>timers := filter (\<lambda>t. fst t \<noteq> i) (timers w)\<rparr>)"

text \<open>
  \<^verbatim>\<open>prev + 1\<close> on a number is binary64 addition: the exact sum, rounded to the nearest
  binary64 number, to the one with the even significand when two are equally near. From
  \<open>- 2 ^ 53\<close> up to \<open>2 ^ 53 - 1\<close> an integer and its successor are binary64 numbers and the
  sum is exact. Beyond, the binary64 numbers are at least 2 apart. A binary64 integer \<open>i\<close>
  with \<open>2 ^ 53 \<le> \<bar>i\<bar> < 2 ^ 54\<close> is even and \<open>i + 1\<close> lies halfway between \<open>i\<close> and \<open>i + 2\<close>: the
  sum is the one of the two that is a multiple of 4. From \<open>2 ^ 54\<close> on \<open>i\<close> itself is
  nearest, so the sum is \<open>i\<close>. (The parser of this model keeps integers exact, so a counter
  can be an integer that is no binary64 number; the code has no such value, and the model
  applies the same rule to it.)
\<close>

definition add_one_int :: "int \<Rightarrow> int" where
  "add_one_int i =
     (if - (2 ^ 53) \<le> i \<and> i < 2 ^ 53 then i + 1
      else if \<bar>i\<bar> < 2 ^ 54 \<and> \<bar>i\<bar> mod 4 = 2 then i + 2
      else i)"

text \<open>
  \<^verbatim>\<open>prev + 1\<close> on any value. On a number that is not an integer the sum is a number that
  depends on binary64 rounding; on an array or an object it goes through the platform's
  conversion to a primitive. The model leaves both results unspecified.
\<close>

definition add_one :: "json \<Rightarrow> json" where
  "add_one prev =
     (case prev of
        JNum x \<Rightarrow> JNum (if is_integer x then of_int (add_one_int \<lfloor>x\<rfloor>) else undefined x)
      | JStr s \<Rightarrow> JStr (s @ js ''1'')
      | JBool b \<Rightarrow> JNum (if b then 2 else 1)
      | JNull \<Rightarrow> JNum 1
      | _ \<Rightarrow> undefined prev)"

text \<open>The callback of \<^verbatim>\<open>setInterval\<close>, with the \<^verbatim>\<open>activePlayer\<close> it captured.\<close>

definition intervalCallback :: "Player \<Rightarrow> world \<Rightarrow> world" where
  "intervalCallback captured w =
     (if captured = player1 then w\<lparr>player1Time := add_one (player1Time w)\<rparr>
      else if captured = player2 then w\<lparr>player2Time := add_one (player2Time w)\<rparr>
      else w)"

subsection \<open>Event handlers\<close>

definition opponent :: "Player \<Rightarrow> Player" where
  "opponent tappedPlayer = (if tappedPlayer = player1 then player2 else player1)"

definition handlePlayerAreaClick :: "Player \<Rightarrow> world \<Rightarrow> world" where
  "handlePlayerAreaClick tappedPlayer w = w\<lparr>activePlayer := Some (opponent tappedPlayer)\<rparr>"

definition handlePause :: "world \<Rightarrow> world" where
  "handlePause w = w\<lparr>activePlayer := None\<rparr>"

definition handleReset :: "world \<Rightarrow> world" where
  "handleReset w =
     w\<lparr>activePlayer := None, player1Time := JNum 0, player2Time := JNum 0, storage := None\<rparr>"

subsection \<open>Rendering\<close>

text \<open>
  After a handler or a timer callback has run, React renders the component again if a
  state cell changed, and then runs the cleanup and the body of every effect one of
  whose dependencies changed: the save effect depends on the two counters, the timer
  effect on \<^verbatim>\<open>activePlayer\<close>. \<open>rerender old new\<close> takes the world before the handler and the
  world the handler left.
\<close>

definition rerender :: "world \<Rightarrow> world \<Rightarrow> world" where
  "rerender old new =
     (let timesChanged = (player1Time new \<noteq> player1Time old \<or> player2Time new \<noteq> player2Time old);
          activeChanged = (activePlayer new \<noteq> activePlayer old);
          w1 = (if activeChanged then timerCleanup new else new);
          w2 = (if timesChanged then saveEffect w1 else w1)
      in if activeChanged then timerEffect w2 else w2)"

text \<open>
  Mounting the component over a storage: the first render has the initial state
  \<open>(0, 0, null)\<close>; the four effects run in the order of the source, each with the values
  of that render, so the save effect writes the zeros of the initial state; then
  the updates the load effect queued are applied and the component renders again.
\<close>

definition mount :: "jsstring option \<Rightarrow> world" where
  "mount st =
     (let (queued, st') = loadEffect st;
          w0 = \<lparr>player1Time = JNum 0, player2Time = JNum 0, activePlayer = None,
                storage = st', timers = [], intervalVar = None, nextTimer = 1\<rparr>;
          w1 = timerEffect (saveEffect w0);
          w2 = (case queued of
                  None \<Rightarrow> w1
                | Some (p1, p2) \<Rightarrow> w1\<lparr>player1Time := p1, player2Time := p2\<rparr>)
      in rerender w1 (w2\<lparr>activePlayer := None\<rparr>))"

subsection \<open>Events\<close>

text \<open>
  A tap on a player's area, the two buttons, the firing of the interval with a given
  identifier (nothing happens if the platform holds no such interval), and a reload of the
  page, which mounts the component afresh over the storage as it is.
\<close>

datatype event = Tap Player | Pause | Reset | Tick nat | Reload

fun step :: "event \<Rightarrow> world \<Rightarrow> world" where
  "step (Tap p) w = rerender w (handlePlayerAreaClick p w)"
| "step Pause w = rerender w (handlePause w)"
| "step Reset w = rerender w (handleReset w)"
| "step (Tick i) w =
     (case map_of (timers w) i of
        None \<Rightarrow> w
      | Some captured \<Rightarrow> rerender w (intervalCallback captured w))"
| "step Reload w = mount (storage w)"

definition run :: "event list \<Rightarrow> world \<Rightarrow> world" where
  "run es w = fold step es w"

subsection \<open>Render logic\<close>

definition player1IsActive :: "world \<Rightarrow> bool" where
  "player1IsActive w = (activePlayer w = Some player1)"

definition player2IsActive :: "world \<Rightarrow> bool" where
  "player2IsActive w = (activePlayer w = Some player2)"

text \<open>The time adjustments, on numbers.\<close>

definition totalTime :: "rat \<Rightarrow> rat \<Rightarrow> rat" where
  "totalTime p1 p2 = p1 + p2"

definition player1Adjustment :: "rat \<Rightarrow> rat \<Rightarrow> rat" where
  "player1Adjustment p1 p2 = (if totalTime p1 p2 > 0 then (2 * p2) / totalTime p1 p2 else 1)"

definition player2Adjustment :: "rat \<Rightarrow> rat \<Rightarrow> rat" where
  "player2Adjustment p1 p2 = (if totalTime p1 p2 > 0 then (2 * p1) / totalTime p1 p2 else 1)"

subsection \<open>Predicates on counters\<close>

text \<open>A counter that is a non-negative integer, and the order on such counters.\<close>

definition is_count :: "json \<Rightarrow> bool" where
  "is_count v = (case v of JNum x \<Rightarrow> is_integer x \<and> 0 \<le> x | _ \<Rightarrow> False)"

definition le_count :: "json \<Rightarrow> json \<Rightarrow> bool" where
  "le_count a b = (case a of JNum x \<Rightarrow> (case b of JNum y \<Rightarrow> x \<le> y | _ \<Rightarrow> False) | _ \<Rightarrow> False)"

text \<open>A storage from which the load effect takes non-negative integers, or nothing.\<close>

definition loads_counts :: "jsstring option \<Rightarrow> bool" where
  "loads_counts st =
     (case fst (loadEffect st) of
        None \<Rightarrow> True
      | Some (a, b) \<Rightarrow> is_count a \<and> is_count b)"

text \<open>
  The scheduler is in step with the state: no interval is alive while the clock is paused,
  and otherwise exactly one is, the one the timer effect's variable names, whose callback
  captured the active player.
\<close>

definition scheduler_ok :: "world \<Rightarrow> bool" where
  "scheduler_ok w =
     (case activePlayer w of
        None \<Rightarrow> timers w = []
      | Some p \<Rightarrow> (case intervalVar w of None \<Rightarrow> False | Some i \<Rightarrow> timers w = [(i, p)]))"

section \<open>The screen wake lock\<close>

text \<open>
  The fourth effect keeps the screen awake while a player is active. It reads
  \<^verbatim>\<open>activePlayer\<close> and writes only \<^verbatim>\<open>wakeLockRef\<close>, so it is modelled on a state of its
  own: the sentinel \<^verbatim>\<open>wakeLockRef.current\<close> refers to (sentinels are numbered as the
  platform grants them), the sentinels that are live (granted and not released: their
  \<^verbatim>\<open>released\<close> is false), the number of requests the platform has not yet answered, and
  the \<^verbatim>\<open>activePlayer\<close> of the latest render.

  \<^verbatim>\<open>requestWakeLock\<close> is asynchronous: it tests the reference, asks the platform and stores
  the sentinel once the platform answers. The model splits it there: \<open>requestWakeLock\<close> is
  the part before the \<^verbatim>\<open>await\<close>, \<open>requestGranted\<close> and \<open>requestDenied\<close> are what follows an
  answer. Releasing a sentinel fires its \<^verbatim>\<open>release\<close> event, whose listener clears the
  reference.
\<close>

record wakelock =
  wakeLockRef :: "nat option"
  live :: "nat list"
  pending :: nat
  nextLock :: nat
  active :: "Player option"

definition released :: "wakelock \<Rightarrow> nat \<Rightarrow> bool" where
  "released k h = (h \<notin> set (live k))"

definition holding :: "wakelock \<Rightarrow> bool" where
  "holding k = (case wakeLockRef k of None \<Rightarrow> False | Some h \<Rightarrow> \<not> released k h)"

definition requestWakeLock :: "wakelock \<Rightarrow> wakelock" where
  "requestWakeLock k =
     (case wakeLockRef k of
        None \<Rightarrow> k\<lparr>pending := pending k + 1\<rparr>
      | Some h \<Rightarrow> if released k h then k\<lparr>pending := pending k + 1\<rparr> else k)"

definition requestGranted :: "wakelock \<Rightarrow> wakelock" where
  "requestGranted k =
     (if pending k = 0 then k
      else k\<lparr>pending := pending k - 1, live := live k @ [nextLock k],
             wakeLockRef := Some (nextLock k), nextLock := nextLock k + 1\<rparr>)"

definition requestDenied :: "wakelock \<Rightarrow> wakelock" where
  "requestDenied k = (if pending k = 0 then k else k\<lparr>pending := pending k - 1\<rparr>)"

definition releaseWakeLock :: "wakelock \<Rightarrow> wakelock" where
  "releaseWakeLock k =
     (case wakeLockRef k of
        None \<Rightarrow> k
      | Some h \<Rightarrow>
          if released k h then k
          else k\<lparr>live := removeAll h (live k), wakeLockRef := None\<rparr>)"

text \<open>The platform releases a live sentinel on its own (the tab is hidden): the listener
  clears the reference.\<close>

definition platformRelease :: "nat \<Rightarrow> wakelock \<Rightarrow> wakelock" where
  "platformRelease h k =
     (if h \<in> set (live k) then k\<lparr>live := removeAll h (live k), wakeLockRef := None\<rparr> else k)"

text \<open>The effect, its cleanup and the visibility handler; \<open>supported\<close> is
  \<^verbatim>\<open>'wakeLock' in navigator\<close>.\<close>

definition wakeLockEffect :: "bool \<Rightarrow> wakelock \<Rightarrow> wakelock" where
  "wakeLockEffect supported k =
     (if \<not> supported then k
      else if active k \<noteq> None then requestWakeLock k
      else releaseWakeLock k)"

definition wakeLockCleanup :: "bool \<Rightarrow> wakelock \<Rightarrow> wakelock" where
  "wakeLockCleanup supported k = (if \<not> supported then k else releaseWakeLock k)"

definition handleVisibilityChange :: "bool \<Rightarrow> bool \<Rightarrow> wakelock \<Rightarrow> wakelock" where
  "handleVisibilityChange supported visible k =
     (if supported \<and> visible \<and> active k \<noteq> None then requestWakeLock k else k)"

datatype wl_event =
    ActiveChanged "Player option"
  | VisibilityChange bool
  | Granted
  | Denied
  | PlatformRelease nat
  | Unmount

fun wl_step :: "bool \<Rightarrow> wl_event \<Rightarrow> wakelock \<Rightarrow> wakelock" where
  "wl_step supported (ActiveChanged a) k =
     (if a = active k then k
      else wakeLockEffect supported ((wakeLockCleanup supported k)\<lparr>active := a\<rparr>))"
| "wl_step supported (VisibilityChange visible) k = handleVisibilityChange supported visible k"
| "wl_step supported Granted k = requestGranted k"
| "wl_step supported Denied k = requestDenied k"
| "wl_step supported (PlatformRelease h) k = platformRelease h k"
| "wl_step supported Unmount k = wakeLockCleanup supported k"

definition wl_mount :: "bool \<Rightarrow> wakelock" where
  "wl_mount supported =
     wakeLockEffect supported
       \<lparr>wakeLockRef = None, live = [], pending = 0, nextLock = 0, active = None\<rparr>"

definition wl_run :: "bool \<Rightarrow> wl_event list \<Rightarrow> wakelock \<Rightarrow> wakelock" where
  "wl_run supported es k = fold (wl_step supported) es k"

text \<open>The events whose handler may call \<^verbatim>\<open>requestWakeLock\<close>.\<close>

fun may_request :: "wl_event \<Rightarrow> bool" where
  "may_request (ActiveChanged a) = True"
| "may_request (VisibilityChange visible) = True"
| "may_request e = False"

text \<open>A run in which no such event arrives while a request is still unanswered.\<close>

fun no_overlap :: "bool \<Rightarrow> wl_event list \<Rightarrow> wakelock \<Rightarrow> bool" where
  "no_overlap supported [] k = True"
| "no_overlap supported (e # es) k =
     ((if may_request e then pending k = 0 else True)
      \<and> no_overlap supported es (wl_step supported e k))"

section \<open>Invariants\<close>

text \<open>
  The storage agrees with the counters: it holds what the save effect writes for them, or
  it is empty and both counters are zero (the state a reset of a zero clock leaves).
\<close>

definition store_ok :: "world \<Rightarrow> bool" where
  "store_ok w =
     (storage w = Some (stateToSave (player1Time w) (player2Time w))
      \<or> (storage w = None \<and> player1Time w = JNum 0 \<and> player2Time w = JNum 0))"

text \<open>Both counters are non-negative integers and the storage agrees with them.\<close>

definition counting :: "world \<Rightarrow> bool" where
  "counting w = (is_count (player1Time w) \<and> is_count (player2Time w) \<and> store_ok w)"

text \<open>
  The wake lock while requests do not overlap: at most one request is unanswered, at most
  one sentinel is live, a live sentinel is the one \<^verbatim>\<open>wakeLockRef\<close> refers to, and none is
  live while a request is unanswered.
\<close>

definition wl_inv :: "wakelock \<Rightarrow> bool" where
  "wl_inv k =
     (pending k \<le> 1
      \<and> (case live k of
            [] \<Rightarrow> True
          | [h] \<Rightarrow> wakeLockRef k = Some h \<and> pending k = 0
          | _ \<Rightarrow> False))"

section \<open>The parser consumes its input\<close>

text \<open>
  Whatever a scanner or a parser returns as the remaining text is shorter than what it was
  given. So the length tests in \<open>parse_elements\<close> and \<open>parse_members\<close> never fail.
\<close>

lemma length_skip_ws: "length (skip_ws s) \<le> length s"
  by (simp add: skip_ws_def length_dropWhile_le)

lemma skip_ws_Cons_shorter: "skip_ws s = c # r \<Longrightarrow> length r < length s"
  using length_skip_ws [of s] by simp

lemma consume_shorter:
  "consume u res = Some (k, r) \<Longrightarrow> \<exists>k'. res = Some (k', r)"
  by (auto simp: consume_def split: option.splits)

lemma scan_string_shorter: "scan_string s = Some (k, r) \<Longrightarrow> length r < length s"
proof (induction s arbitrary: k r rule: scan_string.induct)
  case 1
  then show ?case by simp
next
  case (2 c cs)
  show ?case
  proof (cases "c = 0x22")
    case True
    with "2.prems" show ?thesis by simp
  next
    case nq: False
    show ?thesis
    proof (cases "c = 0x5C")
      case False
      with nq "2.prems" have "c \<ge> 0x20" and "consume c (scan_string cs) = Some (k, r)"
        by (auto split: if_splits)
      then obtain k' where "scan_string cs = Some (k', r)" using consume_shorter by blast
      with "2.IH"(3) [OF nq False] \<open>c \<ge> 0x20\<close> show ?thesis by fastforce
    next
      case bs: True
      show ?thesis
      proof (cases cs)
        case Nil
        with nq bs "2.prems" show ?thesis by simp
      next
        case (Cons e r0)
        show ?thesis
        proof (cases "e = 0x75")
          case False
          with nq bs Cons "2.prems" obtain u where u: "unescape e = Some u"
            and "consume u (scan_string r0) = Some (k, r)"
            by (auto split: option.splits)
          then obtain k' where "scan_string r0 = Some (k', r)" using consume_shorter by blast
          with "2.IH"(2) [OF nq bs Cons False u] Cons show ?thesis by fastforce
        next
          case True
          with nq bs Cons "2.prems" obtain h3 h2 h1 h0 r' u where r0: "r0 = h3 # h2 # h1 # h0 # r'"
            and u: "hex4 h3 h2 h1 h0 = Some u"
            and "consume u (scan_string r') = Some (k, r)"
            by (auto split: option.splits list.splits)
          then obtain k' where "scan_string r' = Some (k', r)" using consume_shorter by blast
          with "2.IH"(1) [OF nq bs Cons True r0 _ _ _ u] r0 Cons show ?thesis by fastforce
        qed
      qed
    qed
  qed
qed

lemma scan_int_part_shorter: "scan_int_part s = Some (ip, r) \<Longrightarrow> length r < length s"
  by (auto simp: scan_int_part_def split: list.splits if_splits
      intro: le_imp_less_Suc length_dropWhile_le)

lemma scan_fraction_shorter: "scan_fraction s = Some (fp, r) \<Longrightarrow> length r \<le> length s"
  by (auto simp: scan_fraction_def split: list.splits if_splits
      intro: le_SucI length_dropWhile_le)

lemma scan_exponent_shorter: "scan_exponent s = Some (e, r) \<Longrightarrow> length r \<le> length s"
  apply (auto simp: scan_exponent_def Let_def split: list.splits if_splits
      intro: le_SucI length_dropWhile_le)
  done

lemma scan_number_shorter: "scan_number s = Some (x, r) \<Longrightarrow> length r < length s"
proof -
  assume a: "scan_number s = Some (x, r)"
  define s1 where "s1 = (if (case s of [] \<Rightarrow> False | c # _ \<Rightarrow> c = 0x2D) then tl s else s)"
  have s1: "length s1 \<le> length s" by (simp add: s1_def)
  from a obtain ip s2 fp s3 e where
    "scan_int_part s1 = Some (ip, s2)" "scan_fraction s2 = Some (fp, s3)"
    "scan_exponent s3 = Some (e, r)"
    by (auto simp: scan_number_def Let_def s1_def split: option.splits)
  then have "length s2 < length s1" "length s3 \<le> length s2" "length r \<le> length s3"
    using scan_int_part_shorter scan_fraction_shorter scan_exponent_shorter by blast+
  with s1 show ?thesis by linarith
qed

lemma parse_shorter:
  "(\<forall>v r. parse_value s = Some (v, r) \<longrightarrow> length r < length s)"
  "(\<forall>v r. parse_elements acc s = Some (v, r) \<longrightarrow> length r < length s)"
  "(\<forall>v r. parse_members macc s = Some (v, r) \<longrightarrow> length r < length s)"
proof (induction s and acc s and macc s rule: parse_value_parse_elements_parse_members.induct)
  case (1 s)
  show ?case
  proof (intro allI impI)
    fix v r
    assume a: "parse_value s = Some (v, r)"
    then obtain c r0 where sk: "skip_ws s = c # r0"
      by (subst (asm) parse_value.simps) (auto split: list.splits)
    have l0: "length r0 < length s" using skip_ws_Cons_shorter [OF sk] .
    have l1: "length (c # r0) \<le> length s" using l0 by simp
    consider (obj) "c = 0x7B" | (arr) "c \<noteq> 0x7B" "c = 0x5B" | (str) "c \<noteq> 0x7B" "c \<noteq> 0x5B" "c = 0x22"
      | (other) "c \<noteq> 0x7B" "c \<noteq> 0x5B" "c \<noteq> 0x22" by blast
    then show "length r < length s"
    proof cases
      case obj
      from a sk obj obtain d r' where sk2: "skip_ws r0 = d # r'"
        by (subst (asm) parse_value.simps) (auto split: list.splits)
      show ?thesis
      proof (cases "d = 0x7D")
        case True
        with a sk obj sk2 have "r = r'" by (subst (asm) parse_value.simps) simp
        with skip_ws_Cons_shorter [OF sk2] l0 show ?thesis by simp
      next
        case False
        with a sk obj sk2 have "parse_members [] r0 = Some (v, r)"
          by (subst (asm) parse_value.simps) simp
        with "1.IH"(1) [OF sk obj sk2 False] l0 show ?thesis by fastforce
      qed
    next
      case arr
      from a sk arr obtain d r' where sk2: "skip_ws r0 = d # r'"
        by (subst (asm) parse_value.simps) (auto split: list.splits)
      show ?thesis
      proof (cases "d = 0x5D")
        case True
        with a sk arr sk2 have "r = r'" by (subst (asm) parse_value.simps) simp
        with skip_ws_Cons_shorter [OF sk2] l0 show ?thesis by simp
      next
        case False
        with a sk arr sk2 have "parse_elements [] r0 = Some (v, r)"
          by (subst (asm) parse_value.simps) simp
        with "1.IH"(2) [OF sk arr(1) arr(2) sk2 False] l0 show ?thesis by fastforce
      qed
    next
      case str
      with a sk obtain k where "scan_string r0 = Some (k, r)"
        by (subst (asm) parse_value.simps) (auto split: option.splits)
      from scan_string_shorter [OF this] l0 show ?thesis by simp
    next
      case other
      with a sk have "(take 4 (c # r0) = js ''true'' \<and> r = drop 4 (c # r0))
          \<or> (take 5 (c # r0) = js ''false'' \<and> r = drop 5 (c # r0))
          \<or> (take 4 (c # r0) = js ''null'' \<and> r = drop 4 (c # r0))
          \<or> (\<exists>x. scan_number (c # r0) = Some (x, r))"
        by (subst (asm) parse_value.simps) (auto split: option.splits if_splits)
      then show ?thesis using l1 scan_number_shorter [of "c # r0" _ r] by auto
    qed
  qed
next
  case (2 acc s)
  show ?case
  proof (intro allI impI)
    fix v r
    assume a: "parse_elements acc s = Some (v, r)"
    then obtain v0 r0 where pv: "parse_value s = Some (v0, r0)" and l0: "length r0 < length s"
      by (subst (asm) parse_elements.simps) (auto split: option.splits if_splits)
    with a obtain d r' where sk: "skip_ws r0 = d # r'"
      by (subst (asm) parse_elements.simps) (auto split: list.splits)
    have l1: "length r' < length r0" using skip_ws_Cons_shorter [OF sk] .
    show "length r < length s"
    proof (cases "d = 0x2C")
      case True
      with a pv l0 sk have "parse_elements (acc @ [v0]) r' = Some (v, r)"
        by (subst (asm) parse_elements.simps) simp
      with "2.IH"(2) [OF pv refl l0 sk True] l0 l1 show ?thesis by fastforce
    next
      case False
      with a pv l0 sk have "r = r'"
        by (subst (asm) parse_elements.simps) (auto split: if_splits)
      with l0 l1 show ?thesis by simp
    qed
  qed
next
  case (3 macc s)
  show ?case
  proof (intro allI impI)
    fix v r
    assume a: "parse_members macc s = Some (v, r)"
    then obtain q r0 where sk0: "skip_ws s = q # r0" and q: "q = 0x22"
      by (subst (asm) parse_members.simps) (auto split: list.splits if_splits)
    with a obtain k r1 where ss: "scan_string r0 = Some (k, r1)"
      by (subst (asm) parse_members.simps) (auto split: option.splits)
    with a sk0 q obtain c r2 where sk1: "skip_ws r1 = c # r2" and c: "c = 0x3A \<and> length r2 < length s"
      by (subst (asm) parse_members.simps) (auto split: list.splits if_splits)
    with a sk0 q ss obtain v0 r3 where pv: "parse_value r2 = Some (v0, r3)" and l3: "length r3 < length r2"
      by (subst (asm) parse_members.simps) (auto split: option.splits if_splits)
    with a sk0 q ss sk1 c obtain d r' where sk3: "skip_ws r3 = d # r'"
      by (subst (asm) parse_members.simps) (auto split: list.splits)
    have l4: "length r' < length r3" using skip_ws_Cons_shorter [OF sk3] .
    show "length r < length s"
    proof (cases "d = 0x2C")
      case True
      with a sk0 q ss sk1 c pv l3 sk3 have "parse_members (macc @ [(k, v0)]) r' = Some (v, r)"
        by (subst (asm) parse_members.simps) simp
      with "3.IH"(2) [OF sk0 q ss refl sk1 c pv refl l3 sk3 True] c l3 l4 show ?thesis by fastforce
    next
      case False
      with a sk0 q ss sk1 c pv l3 sk3 have "r = r'"
        by (subst (asm) parse_members.simps) (auto split: if_splits)
      with c l3 l4 show ?thesis by simp
    qed
  qed
qed

text \<open>The equations of the two loops without the length tests.\<close>

lemma parse_elements_plain:
  "parse_elements acc s =
     (case parse_value s of
        None \<Rightarrow> None
      | Some (v, r) \<Rightarrow>
          (case skip_ws r of
             [] \<Rightarrow> None
           | d # r' \<Rightarrow>
               if d = 0x2C then parse_elements (acc @ [v]) r'
               else if d = 0x5D then Some (JArr (acc @ [v]), r')
               else None))"
  using parse_shorter(1) [of s]
  by (subst parse_elements.simps) (auto split: option.splits)

lemma parse_members_plain:
  "parse_members acc s =
     (case skip_ws s of
        [] \<Rightarrow> None
      | q # r0 \<Rightarrow>
          if q = 0x22 then
            (case scan_string r0 of
               None \<Rightarrow> None
             | Some (k, r1) \<Rightarrow>
                 (case skip_ws r1 of
                    [] \<Rightarrow> None
                  | c # r2 \<Rightarrow>
                      if c = 0x3A then
                        (case parse_value r2 of
                           None \<Rightarrow> None
                         | Some (v, r) \<Rightarrow>
                             (case skip_ws r of
                                [] \<Rightarrow> None
                              | d # r' \<Rightarrow>
                                  if d = 0x2C then parse_members (acc @ [(k, v)]) r'
                                  else if d = 0x7D then Some (JObj (acc @ [(k, v)]), r')
                                  else None))
                      else None))
          else None)"
proof -
  have g1: "length r2 < length s"
    if "skip_ws s = q # r0" "scan_string r0 = Some (k, r1)" "skip_ws r1 = c # r2"
    for q r0 k r1 c r2
    using skip_ws_Cons_shorter [OF that(1)] scan_string_shorter [OF that(2)]
      skip_ws_Cons_shorter [OF that(3)] by simp
  have g2: "length r < length r2" if "parse_value r2 = Some (v, r)" for r2 v r
    using parse_shorter(1) [of r2] that by simp
  show ?thesis
    by (subst parse_members.simps) (auto split: option.splits list.splits simp: g1 g2)
qed

section \<open>Reading back what the save effect wrote\<close>

lemma unat_digit: "d < 10 \<Longrightarrow> unat (digit_char d) = 48 + d"
proof -
  assume "d < 10"
  then have "(48 + d) mod 2 ^ LENGTH(16) = 48 + d" by simp
  then show ?thesis by (simp only: digit_char_def unat_of_nat)
qed

lemma is_digit_digit: "d < 10 \<Longrightarrow> is_digit (digit_char d)"
  unfolding is_digit_def word_le_nat_alt using unat_digit [of d] by simp

lemma digit_val_digit: "d < 10 \<Longrightarrow> digit_val (digit_char d) = d"
  unfolding digit_val_def using unat_digit [of d] by simp

lemma digit_char_zero_iff: "d < 10 \<Longrightarrow> (digit_char d = 0x30) = (d = 0)"
proof -
  assume d: "d < 10"
  have "digit_char d = 0x30 \<Longrightarrow> d = 0"
  proof -
    assume "digit_char d = 0x30"
    then have "unat (digit_char d) = unat (0x30 :: 16 word)" by simp
    with unat_digit [OF d] show "d = 0" by simp
  qed
  moreover have "digit_char 0 = 0x30" by (simp add: digit_char_def)
  ultimately show ?thesis by auto
qed

lemma show_nat_digits: "\<forall>c \<in> set (show_nat n). is_digit c"
proof (induction n rule: show_nat.induct)
  case (1 n)
  show ?case
  proof (cases "n < 10")
    case True
    then show ?thesis by (subst show_nat.simps) (simp add: is_digit_digit)
  next
    case False
    have "n mod 10 < 10" by simp
    with False "1.IH" show ?thesis by (subst show_nat.simps) (simp add: is_digit_digit)
  qed
qed

lemma show_nat_nonempty: "show_nat n \<noteq> []"
  by (subst show_nat.simps) simp

lemma digits_val_snoc: "digits_val (ds @ [c]) = 10 * digits_val ds + digit_val c"
  by (simp add: digits_val_def)

lemma digits_val_show_nat: "digits_val (show_nat n) = n"
proof (induction n rule: show_nat.induct)
  case (1 n)
  show ?case
  proof (cases "n < 10")
    case True
    then show ?thesis by (subst show_nat.simps) (simp add: digits_val_def digit_val_digit)
  next
    case False
    have "n mod 10 < 10" by simp
    with False "1.IH" show ?thesis
      by (subst show_nat.simps) (simp add: digits_val_snoc digit_val_digit)
  qed
qed

lemma hd_show_nat_zero: "hd (show_nat n) = 0x30 \<longleftrightarrow> n = 0"
proof (induction n rule: show_nat.induct)
  case (1 n)
  show ?case
  proof (cases "n < 10")
    case True
    then show ?thesis by (subst show_nat.simps) (simp add: digit_char_zero_iff)
  next
    case False
    then have "n div 10 \<noteq> 0" by simp
    with False "1.IH" show ?thesis
      by (subst show_nat.simps) (simp add: show_nat_nonempty)
  qed
qed

lemma takeWhile_show_nat:
  "r = [] \<or> \<not> is_digit (hd r) \<Longrightarrow> takeWhile is_digit (show_nat n @ r) = show_nat n"
  using show_nat_digits [of n] by (cases r) (auto simp: takeWhile_append2 takeWhile_eq_all_conv)

lemma dropWhile_show_nat:
  "r = [] \<or> \<not> is_digit (hd r) \<Longrightarrow> dropWhile is_digit (show_nat n @ r) = r"
  using show_nat_digits [of n] by (cases r) (auto simp: dropWhile_append2)

lemma scan_int_part_show_nat:
  assumes "r = [] \<or> \<not> is_digit (hd r)"
  shows "scan_int_part (show_nat n @ r) = Some (show_nat n, r)"
proof -
  obtain c cs where sn: "show_nat n = c # cs" using show_nat_nonempty [of n] by (cases "show_nat n") auto
  have dc: "is_digit c" using show_nat_digits [of n] sn by simp
  show ?thesis
  proof (cases "n = 0")
    case True
    have z: "show_nat 0 = [0x30]" by (subst show_nat.simps) (simp add: digit_char_def)
    from True show ?thesis by (simp add: z scan_int_part_def)
  next
    case False
    then have "c \<noteq> 0x30" using hd_show_nat_zero [of n] sn by simp
    moreover have "takeWhile is_digit (c # cs @ r) = c # cs" "dropWhile is_digit (c # cs @ r) = r"
      using takeWhile_show_nat [OF assms, of n] dropWhile_show_nat [OF assms, of n] sn by simp_all
    ultimately show ?thesis using dc sn by (simp add: scan_int_part_def)
  qed
qed

lemma scan_number_show_nat:
  assumes "c = 0x2C \<or> c = 0x7D"
  shows "scan_number (show_nat n @ c # r) = Some (of_nat n, c # r)"
proof -
  obtain d ds where sn: "show_nat n = d # ds" using show_nat_nonempty [of n] by (cases "show_nat n") auto
  have dd: "is_digit d" using show_nat_digits [of n] sn by simp
  then have "d \<noteq> 0x2D" by (auto simp: is_digit_def)
  have nd: "\<not> is_digit c" using assms by (auto simp: is_digit_def)
  have ip: "scan_int_part (d # ds @ c # r) = Some (d # ds, c # r)"
    using scan_int_part_show_nat [of "c # r" n] nd sn by simp
  have fr: "scan_fraction (c # r) = Some ([], c # r)" using assms by (auto simp: scan_fraction_def)
  have ex: "scan_exponent (c # r) = Some (0, c # r)" using assms by (auto simp: scan_exponent_def)
  show ?thesis
    using ip fr ex \<open>d \<noteq> 0x2D\<close> digits_val_show_nat [of n] sn
    by (simp add: scan_number_def pow10_def)
qed

lemma skip_ws_nonws: "\<not> is_ws c \<Longrightarrow> skip_ws (c # r) = c # r"
  by (simp add: skip_ws_def)

lemma digit_not_special:
  assumes "is_digit d"
  shows "\<not> is_ws d" "d \<noteq> 0x7B" "d \<noteq> 0x5B" "d \<noteq> 0x22" "d \<noteq> 0x74" "d \<noteq> 0x66" "d \<noteq> 0x6E"
  using assms by (auto simp: is_digit_def is_ws_def)

lemma parse_value_show_nat:
  assumes "c = 0x2C \<or> c = 0x7D"
  shows "parse_value (show_nat n @ c # r) = Some (JNum (of_nat n), c # r)"
proof -
  obtain d ds where sn: "show_nat n = d # ds"
    using show_nat_nonempty [of n] by (cases "show_nat n") auto
  have dd: "is_digit d" using show_nat_digits [of n] sn by simp
  have num: "scan_number (d # ds @ c # r) = Some (of_nat n, c # r)"
    using scan_number_show_nat [OF assms, of n r] sn by simp
  show ?thesis
    unfolding sn
    by (subst parse_value.simps)
       (simp add: skip_ws_nonws digit_not_special [OF dd] js_def num)
qed

lemma stateToSave_counts:
  "stateToSave (JNum (of_nat a)) (JNum (of_nat b)) =
     js ''{\"p1Time\":'' @ show_nat a @ js '',\"p2Time\":'' @ show_nat b @ js ''}''"
  by (simp add: stateToSave_def JSON_stringify_value_def is_integer_def show_int_def)

lemma parse_members_p2:
  "parse_members acc (js ''\"p2Time\":'' @ show_nat b @ js ''}'') =
     Some (JObj (acc @ [(js ''p2Time'', JNum (of_nat b))]), [])"
proof -
  have pv: "parse_value (show_nat b @ 0x7D # []) = Some (JNum (of_nat b), [0x7D])"
    by (rule parse_value_show_nat) simp
  show ?thesis
    by (subst parse_members.simps)
       (simp add: js_def skip_ws_def is_ws_def consume_def pv show_nat_nonempty)
qed

lemma parse_members_p1:
  "parse_members [] (js ''\"p1Time\":'' @ show_nat a @ js '',\"p2Time\":'' @ show_nat b @ js ''}'') =
     Some (JObj [(js ''p1Time'', JNum (of_nat a)), (js ''p2Time'', JNum (of_nat b))], [])"
proof -
  have pv: "parse_value (show_nat a @ 0x2C # (js ''\"p2Time\":'' @ show_nat b @ js ''}''))
      = Some (JNum (of_nat a), 0x2C # (js ''\"p2Time\":'' @ show_nat b @ js ''}''))"
    by (rule parse_value_show_nat) simp
  have p2: "parse_members [(js ''p1Time'', JNum (of_nat a))] (js ''\"p2Time\":'' @ show_nat b @ js ''}'')
     = Some (JObj [(js ''p1Time'', JNum (of_nat a)), (js ''p2Time'', JNum (of_nat b))], [])"
    using parse_members_p2 [of "[(js ''p1Time'', JNum (of_nat a))]" b] by simp
  show ?thesis
    using pv p2
    by (subst parse_members.simps)
       (simp add: js_def skip_ws_def is_ws_def consume_def show_nat_nonempty)
qed

lemma JSON_parse_stateToSave:
  "JSON_parse (stateToSave (JNum (of_nat a)) (JNum (of_nat b))) =
     Some (JObj [(js ''p1Time'', JNum (of_nat a)), (js ''p2Time'', JNum (of_nat b))])"
proof -
  have "parse_value (js ''{\"p1Time\":'' @ show_nat a @ js '',\"p2Time\":'' @ show_nat b @ js ''}'')
     = Some (JObj [(js ''p1Time'', JNum (of_nat a)), (js ''p2Time'', JNum (of_nat b))], [])"
    using parse_members_p1 [of a b]
    by (subst parse_value.simps) (simp add: js_def skip_ws_def is_ws_def)
  then show ?thesis by (simp add: JSON_parse_def stateToSave_counts skip_ws_def)
qed

lemma stateToSave_nonempty: "stateToSave p1 p2 \<noteq> []"
  by (simp add: stateToSave_def js_def)

lemma loadEffect_stateToSave:
  "loadEffect (Some (stateToSave (JNum (of_nat a)) (JNum (of_nat b)))) =
     (Some (JNum (of_nat a), JNum (of_nat b)), Some (stateToSave (JNum (of_nat a)) (JNum (of_nat b))))"
  by (simp add: loadEffect_def load_try_def stateToSave_nonempty JSON_parse_stateToSave
      get_prop_def or_zero_def js_def)

section \<open>Rendering and mounting\<close>

lemma rerender_state:
  "player1Time (rerender old new) = player1Time new"
  "player2Time (rerender old new) = player2Time new"
  "activePlayer (rerender old new) = activePlayer new"
  by (simp_all add: rerender_def Let_def saveEffect_def timerEffect_def timerCleanup_def
      split: option.splits)

lemma rerender_storage:
  "storage (rerender old new) =
     (if player1Time new \<noteq> player1Time old \<or> player2Time new \<noteq> player2Time old
      then Some (stateToSave (player1Time new) (player2Time new)) else storage new)"
  by (simp add: rerender_def Let_def saveEffect_def timerEffect_def timerCleanup_def
      split: option.splits)

lemma rerender_same_active:
  "activePlayer new = activePlayer old \<Longrightarrow>
     timers (rerender old new) = timers new \<and> intervalVar (rerender old new) = intervalVar new
     \<and> nextTimer (rerender old new) = nextTimer new"
  by (simp add: rerender_def Let_def saveEffect_def)

lemma opponent_differs: "opponent X \<noteq> X"
  by (cases X) (simp_all add: opponent_def)

lemma mount_activePlayer: "activePlayer (mount st) = None"
  by (simp add: mount_def Let_def rerender_state split: prod.splits option.splits)

lemma mount_times:
  "player1Time (mount st) = (case fst (loadEffect st) of None \<Rightarrow> JNum 0 | Some (a, b) \<Rightarrow> a)"
  "player2Time (mount st) = (case fst (loadEffect st) of None \<Rightarrow> JNum 0 | Some (a, b) \<Rightarrow> b)"
  by (simp_all add: mount_def Let_def rerender_state saveEffect_def timerEffect_def
      split: prod.splits option.splits)

lemma mount_timers: "timers (mount st) = [] \<and> intervalVar (mount st) = None"
  by (simp add: mount_def Let_def rerender_def saveEffect_def timerEffect_def
      split: prod.splits option.splits)

lemma mount_storage:
  "storage (mount st) = Some (stateToSave (player1Time (mount st)) (player2Time (mount st)))"
  by (simp add: mount_def Let_def rerender_def saveEffect_def timerEffect_def
      split: prod.splits option.splits)

lemma loadEffect_12_7:
  "loadEffect (Some (js ''{\"p1Time\":12,\"p2Time\":7}'')) =
     (Some (JNum 12, JNum 7), Some (js ''{\"p1Time\":12,\"p2Time\":7}''))"
  by code_simp

section \<open>The scheduler follows the state\<close>

lemma scheduler_ok_rerender:
  assumes "scheduler_ok old"
    and "timers new = timers old" "intervalVar new = intervalVar old" "nextTimer new = nextTimer old"
  shows "scheduler_ok (rerender old new)"
  using assms
  by (auto simp: scheduler_ok_def rerender_def Let_def saveEffect_def timerEffect_def
      timerCleanup_def split: option.splits)

lemma scheduler_ok_mount: "scheduler_ok (mount st)"
  by (simp add: scheduler_ok_def mount_activePlayer mount_timers)

lemma scheduler_ok_step: "scheduler_ok w \<Longrightarrow> scheduler_ok (step e w)"
proof (cases e)
  case (Tick i)
  assume "scheduler_ok w"
  then show ?thesis using Tick
    by (auto simp: intervalCallback_def split: option.splits intro!: scheduler_ok_rerender)
qed (auto simp: handlePlayerAreaClick_def handlePause_def handleReset_def scheduler_ok_mount
      intro!: scheduler_ok_rerender)

lemma scheduler_ok_run: "scheduler_ok w \<Longrightarrow> scheduler_ok (run es w)"
  unfolding run_def by (induction es arbitrary: w) (simp_all add: scheduler_ok_step)

lemma scheduler_ok_reachable: "scheduler_ok (run es (mount st))"
  by (rule scheduler_ok_run [OF scheduler_ok_mount])

lemma tick_callback_times:
  "player1Time (step (Tick i) w) =
     (case map_of (timers w) i of
        None \<Rightarrow> player1Time w
      | Some p \<Rightarrow> if p = player1 then add_one (player1Time w) else player1Time w)"
  "player2Time (step (Tick i) w) =
     (case map_of (timers w) i of
        None \<Rightarrow> player2Time w
      | Some p \<Rightarrow> if p = player2 then add_one (player2Time w) else player2Time w)"
  by (auto simp: rerender_state intervalCallback_def split: option.splits)

section \<open>Counters stay counters\<close>

lemma is_count_nat: "is_count v \<Longrightarrow> \<exists>n. v = JNum (of_nat n)"
proof -
  assume "is_count v"
  then obtain x where v: "v = JNum x" and i: "x = of_int \<lfloor>x\<rfloor>" and p: "0 \<le> x"
    by (auto simp: is_count_def is_integer_def split: json.splits)
  from p have "0 \<le> \<lfloor>x\<rfloor>" by simp
  then have "of_int \<lfloor>x\<rfloor> = (of_nat (nat \<lfloor>x\<rfloor>) :: rat)" by simp
  with v i show ?thesis by metis
qed

lemma is_count_of_nat: "is_count (JNum (of_nat n))"
  by (simp add: is_count_def is_integer_def)

lemma is_count_zero: "is_count (JNum 0)"
  using is_count_of_nat [of 0] by simp

lemma add_one_int_ge: "i \<le> add_one_int i"
  by (simp add: add_one_int_def)

lemma add_one_of_int: "add_one (JNum (of_int i)) = JNum (of_int (add_one_int i))"
  by (simp add: add_one_def is_integer_def)

lemma add_one_safe:
  assumes "is_integer x" "- (2 ^ 53) \<le> x" "x < 2 ^ 53"
  shows "add_one (JNum x) = JNum (x + 1)"
proof -
  from assms(1) have x: "x = of_int \<lfloor>x\<rfloor>" by (simp add: is_integer_def)
  have "- (2 ^ 53) \<le> \<lfloor>x\<rfloor>" using assms(2) by (simp add: le_floor_iff)
  moreover have "\<lfloor>x\<rfloor> < 2 ^ 53" using assms(3) by (simp add: floor_less_iff)
  ultimately have "add_one_int \<lfloor>x\<rfloor> = \<lfloor>x\<rfloor> + 1" by (simp add: add_one_int_def)
  then have "add_one (JNum (of_int \<lfloor>x\<rfloor>)) = JNum (of_int \<lfloor>x\<rfloor> + 1)"
    by (simp add: add_one_of_int)
  with x show ?thesis by simp
qed

lemma is_count_add_one: "is_count v \<Longrightarrow> is_count (add_one v) \<and> le_count v (add_one v)"
proof -
  assume "is_count v"
  then obtain n where v: "v = JNum (of_nat n)" using is_count_nat by blast
  define r where "r = add_one_int (int n)"
  have "add_one (JNum (of_int (int n))) = JNum (of_int r)"
    unfolding r_def by (rule add_one_of_int)
  then have a: "add_one (JNum (of_nat n)) = JNum (of_int r)" by simp
  have "int n \<le> r" unfolding r_def by (rule add_one_int_ge)
  then have "(0::rat) \<le> of_int r" and "(of_nat n :: rat) \<le> of_int r"
    by (simp, metis of_int_le_iff of_int_of_nat_eq)
  then show ?thesis by (simp add: a v is_count_def is_integer_def le_count_def)
qed

lemma le_count_refl: "is_count v \<Longrightarrow> le_count v v"
  by (auto simp: is_count_def le_count_def split: json.splits)

lemma loadEffect_None: "loadEffect None = (None, None)"
  by (simp add: loadEffect_def load_try_def)

lemma mount_store_ok: "store_ok (mount st)"
  by (simp add: store_ok_def mount_storage)

lemma mount_counts:
  "loads_counts st \<Longrightarrow> is_count (player1Time (mount st)) \<and> is_count (player2Time (mount st))"
  by (auto simp: loads_counts_def mount_times is_count_zero split: option.splits)

lemma remount_times:
  assumes "is_count (player1Time w)" "is_count (player2Time w)" "store_ok w"
  shows "player1Time (mount (storage w)) = player1Time w \<and> player2Time (mount (storage w)) = player2Time w"
proof -
  from assms obtain a b where ab: "player1Time w = JNum (of_nat a)" "player2Time w = JNum (of_nat b)"
    using is_count_nat by blast
  from assms(3) show ?thesis
    unfolding store_ok_def
  proof
    assume "storage w = Some (stateToSave (player1Time w) (player2Time w))"
    then show ?thesis by (simp add: ab mount_times loadEffect_stateToSave)
  next
    assume "storage w = None \<and> player1Time w = JNum 0 \<and> player2Time w = JNum 0"
    then show ?thesis by (simp add: mount_times loadEffect_None)
  qed
qed

lemma store_ok_rerender:
  "storage new = storage old \<Longrightarrow> store_ok old \<Longrightarrow> store_ok (rerender old new)"
  by (auto simp: store_ok_def rerender_state rerender_storage)

lemma store_ok_reset: "store_ok (step Reset w)"
  by (auto simp: store_ok_def rerender_state rerender_storage handleReset_def)

lemma counting_step_times:
  assumes "counting w" "e \<noteq> Reset"
  shows "le_count (player1Time w) (player1Time (step e w))
       \<and> le_count (player2Time w) (player2Time (step e w))"
proof (cases e)
  case (Tap X)
  with assms show ?thesis
    by (simp add: counting_def rerender_state handlePlayerAreaClick_def le_count_refl)
next
  case Pause
  with assms show ?thesis
    by (simp add: counting_def rerender_state handlePause_def le_count_refl)
next
  case Reset
  with assms show ?thesis by simp
next
  case (Tick i)
  with assms show ?thesis
    by (auto simp: counting_def tick_callback_times le_count_refl is_count_add_one
        simp del: step.simps split: option.splits)
next
  case Reload
  with assms show ?thesis
    using remount_times [of w] by (simp add: counting_def le_count_refl)
qed

lemma counting_step: "counting w \<Longrightarrow> counting (step e w)"
proof (cases e)
  case (Tap X)
  assume "counting w"
  with Tap show ?thesis
    by (simp add: counting_def rerender_state handlePlayerAreaClick_def store_ok_rerender)
next
  case Pause
  assume "counting w"
  with Pause show ?thesis
    by (simp add: counting_def rerender_state handlePause_def store_ok_rerender)
next
  case Reset
  assume "counting w"
  have "is_count (player1Time (step Reset w)) \<and> is_count (player2Time (step Reset w))"
    by (simp add: rerender_state handleReset_def is_count_zero)
  with Reset store_ok_reset [of w] show ?thesis by (simp add: counting_def)
next
  case (Tick i)
  assume c: "counting w"
  have "store_ok (step (Tick i) w)"
    using c by (auto simp: counting_def intervalCallback_def split: option.splits
        intro!: store_ok_rerender)
  moreover have "is_count (player1Time (step (Tick i) w)) \<and> is_count (player2Time (step (Tick i) w))"
    using c by (auto simp: counting_def tick_callback_times is_count_add_one
        simp del: step.simps split: option.splits)
  ultimately show ?thesis using Tick by (simp add: counting_def)
next
  case Reload
  assume c: "counting w"
  then show ?thesis using Reload remount_times [of w] mount_store_ok [of "storage w"]
    by (simp add: counting_def)
qed

lemma counting_run: "counting w \<Longrightarrow> counting (run es w)"
  unfolding run_def by (induction es arbitrary: w) (simp_all add: counting_step)

lemma counting_mount: "loads_counts st \<Longrightarrow> counting (mount st)"
  by (simp add: counting_def mount_counts mount_store_ok)

lemma not_both_active: "\<not> (player1IsActive w \<and> player2IsActive w)"
  by (simp add: player1IsActive_def player2IsActive_def)

section \<open>Reset and load\<close>

lemma zero_record: "stateToSave (JNum 0) (JNum 0) = js ''{\"p1Time\":0,\"p2Time\":0}''"
  using stateToSave_counts [of 0 0] by (simp add: show_nat.simps [of 0] digit_char_def js_def)

lemma reset_state:
  "player1Time (step Reset w) = JNum 0 \<and> player2Time (step Reset w) = JNum 0
   \<and> activePlayer (step Reset w) = None"
  by (simp add: rerender_state handleReset_def)

lemma reset_storage:
  "storage (handleReset w) = None
   \<and> storage (step Reset w) =
       (if player1Time w = JNum 0 \<and> player2Time w = JNum 0 then None
        else Some (js ''{\"p1Time\":0,\"p2Time\":0}''))"
  by (auto simp: rerender_state rerender_storage handleReset_def zero_record)

lemma five_ticks:
  "player1Time (run [Tap player2, Tick 1, Tick 1, Tick 1, Tick 1, Tick 1] (mount None)) = JNum 5
   \<and> player2Time (run [Tap player2, Tick 1, Tick 1, Tick 1, Tick 1, Tick 1] (mount None)) = JNum 0
   \<and> activePlayer (run [Tap player2, Tick 1, Tick 1, Tick 1, Tick 1, Tick 1] (mount None))
       = Some player1"
  by (simp add: run_def mount_def loadEffect_def load_try_def rerender_def Let_def
      saveEffect_def timerEffect_def timerCleanup_def handlePlayerAreaClick_def opponent_def
      intervalCallback_def add_one_def add_one_int_def is_integer_def)

lemma or_zero_cases:
  "or_zero None = JNum 0"
  "truthy v \<Longrightarrow> or_zero (Some v) = v"
  "\<not> truthy v \<Longrightarrow> or_zero (Some v) = JNum 0"
  by (simp_all add: or_zero_def)

section \<open>The wake lock\<close>

lemma request_skipped: "holding k \<Longrightarrow> requestWakeLock k = k"
  by (auto simp: holding_def requestWakeLock_def split: option.splits)

lemma release_noop: "\<not> holding k \<Longrightarrow> releaseWakeLock k = k"
  by (auto simp: holding_def releaseWakeLock_def split: option.splits)

lemma wl_inv_release: "wl_inv k \<Longrightarrow> wl_inv (releaseWakeLock k) \<and> pending (releaseWakeLock k) = pending k"
  by (auto simp: wl_inv_def releaseWakeLock_def released_def split: option.splits list.splits)

lemma wl_inv_request: "wl_inv k \<Longrightarrow> pending k = 0 \<Longrightarrow> wl_inv (requestWakeLock k)"
  by (auto simp: wl_inv_def requestWakeLock_def released_def split: option.splits list.splits)

lemma wl_inv_granted: "wl_inv k \<Longrightarrow> wl_inv (requestGranted k)"
  by (auto simp: wl_inv_def requestGranted_def split: list.splits)

lemma wl_inv_denied: "wl_inv k \<Longrightarrow> wl_inv (requestDenied k)"
  by (auto simp: wl_inv_def requestDenied_def split: list.splits)

lemma wl_inv_platform: "wl_inv k \<Longrightarrow> wl_inv (platformRelease h k)"
  by (auto simp: wl_inv_def platformRelease_def split: list.splits)

lemma wl_inv_active: "wl_inv (k\<lparr>active := a\<rparr>) = wl_inv k"
  by (simp add: wl_inv_def split: list.splits)

lemma wl_inv_step:
  assumes "wl_inv k" and "may_request e \<Longrightarrow> pending k = 0"
  shows "wl_inv (wl_step supported e k)"
proof (cases e)
  case (ActiveChanged a)
  with assms(2) have p: "pending k = 0" by simp
  have r: "wl_inv (releaseWakeLock k)" "pending (releaseWakeLock k) = 0"
    using wl_inv_release [OF assms(1)] p by simp_all
  have "wl_inv (wakeLockEffect supported ((wakeLockCleanup supported k)\<lparr>active := a\<rparr>))"
  proof (cases supported)
    case False
    then show ?thesis using assms(1)
      by (simp add: wakeLockEffect_def wakeLockCleanup_def wl_inv_active)
  next
    case True
    have i: "wl_inv ((releaseWakeLock k)\<lparr>active := a\<rparr>)" using r(1) by (simp add: wl_inv_active)
    have q: "pending ((releaseWakeLock k)\<lparr>active := a\<rparr>) = 0" using r(2) by simp
    show ?thesis
    proof (cases a)
      case None
      then show ?thesis using True wl_inv_release [OF i]
        by (simp add: wakeLockEffect_def wakeLockCleanup_def)
    next
      case (Some p)
      then show ?thesis using True wl_inv_request [OF i q]
        by (simp add: wakeLockEffect_def wakeLockCleanup_def)
    qed
  qed
  with ActiveChanged assms(1) show ?thesis by simp
next
  case (VisibilityChange visible)
  with assms(2) have "pending k = 0" by simp
  with VisibilityChange assms(1) show ?thesis
    by (simp add: handleVisibilityChange_def wl_inv_request)
next
  case Granted
  with assms(1) show ?thesis by (simp add: wl_inv_granted)
next
  case Denied
  with assms(1) show ?thesis by (simp add: wl_inv_denied)
next
  case (PlatformRelease h)
  with assms(1) show ?thesis by (simp add: wl_inv_platform)
next
  case Unmount
  with assms(1) show ?thesis using wl_inv_release [of k] by (simp add: wakeLockCleanup_def)
qed

lemma wl_inv_run:
  "wl_inv k \<Longrightarrow> no_overlap supported es k \<Longrightarrow> wl_inv (wl_run supported es k)"
proof (induction es arbitrary: k)
  case Nil
  then show ?case by (simp add: wl_run_def)
next
  case (Cons e es)
  from Cons.prems have "wl_inv (wl_step supported e k)"
    by (intro wl_inv_step) (auto split: if_splits)
  moreover from Cons.prems have "no_overlap supported es (wl_step supported e k)" by simp
  ultimately have "wl_inv (wl_run supported es (wl_step supported e k))" by (rule Cons.IH)
  then show ?case by (simp add: wl_run_def)
qed

lemma wl_inv_mount: "wl_inv (wl_mount supported)"
  by (simp add: wl_inv_def wl_mount_def wakeLockEffect_def releaseWakeLock_def)

lemma wl_inv_one_live: "wl_inv k \<Longrightarrow> length (live k) \<le> 1"
  by (auto simp: wl_inv_def split: list.splits)

section \<open>The claims\<close>

text \<open>
  The events of the model are atomic: a handler or a timer callback, the render that
  follows it and the effects of that render happen before the next event. Effects run once
  per mount, as in a production build of React. The storage is taken to be available:
  \<^verbatim>\<open>getItem\<close>, \<^verbatim>\<open>setItem\<close> and \<^verbatim>\<open>removeItem\<close> do not throw.
\<close>

subsection \<open>Switching turns\<close>

text \<open>
  Claim C1. For every tapped player \<open>X\<close> and every current state, also one where \<open>X\<close> is
  already active or the clock is paused, switching turns makes the opponent of \<open>X\<close> the
  active player, never \<open>X\<close>. The handler is a total function with no error result: it
  cannot fail.
\<close>

theorem switchTurn_sets_opponent:
  "activePlayer (handlePlayerAreaClick X w) = Some (opponent X)
   \<and> activePlayer (step (Tap X) w) = Some (opponent X)
   \<and> activePlayer (step (Tap X) w) \<noteq> Some X"
  using opponent_differs [of X] by (simp add: rerender_state handlePlayerAreaClick_def)

subsection \<open>Ticks\<close>

text \<open>
  Claim C2, as stated, fails: it speaks of every state with an active player, and the
  counters are binary64 numbers. Over the record \<^verbatim>\<open>{"p1Time":9007199254740992,"p2Time":0}\<close>
  the first counter is \<open>2 ^ 53\<close>. After a tap on the area of player 2, player 1 is active
  and the interval with identifier 1 is alive for player 1; its firing leaves the counter at
  \<open>2 ^ 53\<close>.
\<close>

lemma parse_2_53:
  "JSON_parse (js ''{\"p1Time\":9007199254740992,\"p2Time\":0}'') =
     Some (JObj [(js ''p1Time'', JNum 9007199254740992), (js ''p2Time'', JNum 0)])"
  by (simp add: JSON_parse_def js_def parse_value.simps parse_members.simps skip_ws_def is_ws_def
      consume_def scan_number_def scan_int_part_def scan_fraction_def scan_exponent_def
      is_digit_def digits_val_def digit_val_def pow10_def)

lemma loadEffect_2_53:
  "loadEffect (Some (js ''{\"p1Time\":9007199254740992,\"p2Time\":0}'')) =
     (Some (JNum 9007199254740992, JNum 0), Some (js ''{\"p1Time\":9007199254740992,\"p2Time\":0}''))"
proof -
  have ne: "js ''{\"p1Time\":9007199254740992,\"p2Time\":0}'' \<noteq> []" by (simp add: js_def)
  have k: "js ''p1Time'' \<noteq> js ''p2Time''" "js ''p2Time'' \<noteq> js ''p1Time''"
    by (simp_all add: js_def)
  show ?thesis
    by (simp add: loadEffect_def load_try_def ne parse_2_53 get_prop_def k or_zero_def)
qed

lemma world_2_53:
  "run [Tap player2] (mount (Some (js ''{\"p1Time\":9007199254740992,\"p2Time\":0}''))) =
     \<lparr>player1Time = JNum 9007199254740992, player2Time = JNum 0, activePlayer = Some player1,
      storage = Some (stateToSave (JNum 9007199254740992) (JNum 0)), timers = [(1, player1)],
      intervalVar = Some 1, nextTimer = 2\<rparr>"
  by (simp add: run_def mount_def loadEffect_2_53 rerender_def Let_def saveEffect_def
      timerEffect_def timerCleanup_def handlePlayerAreaClick_def opponent_def)

theorem tick_adds_nothing_at_2_53:
  "activePlayer (run [Tap player2] (mount (Some (js ''{\"p1Time\":9007199254740992,\"p2Time\":0}'')))) = Some player1
   \<and> player1Time (run [Tap player2] (mount (Some (js ''{\"p1Time\":9007199254740992,\"p2Time\":0}'')))) = JNum 9007199254740992
   \<and> map_of (timers (run [Tap player2] (mount (Some (js ''{\"p1Time\":9007199254740992,\"p2Time\":0}''))))) 1 = Some player1
   \<and> player1Time (step (Tick 1) (run [Tap player2] (mount (Some (js ''{\"p1Time\":9007199254740992,\"p2Time\":0}'')))))
       = JNum 9007199254740992"
  by (simp add: world_2_53 rerender_state intervalCallback_def add_one_def add_one_int_def
      is_integer_def)

text \<open>
  Claim C2, amended. In every state the component reaches: while \<^verbatim>\<open>activePlayer\<close> is
  \<^verbatim>\<open>null\<close> no interval is alive, and the firing of any identifier changes nothing, so no
  tick is delivered and nothing is counted after a pause. While a player is active, exactly
  one interval is alive, the one the timer effect's variable names, and it belongs to the
  active player. An identifier that names no live interval changes nothing. The firing of
  the live interval adds exactly 1 to the active player's counter when that counter is an
  integer \<open>n\<close> with \<open>- 2 ^ 53 \<le> n < 2 ^ 53\<close>, and leaves the other counter as it was.
\<close>

theorem tick_increments_active:
  assumes "w = run es (mount st)"
  shows "(activePlayer w = None \<longrightarrow> timers w = [] \<and> step (Tick i) w = w)
     \<and> (activePlayer w = Some p \<longrightarrow> (\<exists>j. timers w = [(j, p)] \<and> intervalVar w = Some j))
     \<and> (map_of (timers w) i = None \<longrightarrow> step (Tick i) w = w)
     \<and> (map_of (timers w) i = Some p \<longrightarrow> activePlayer w = Some p)
     \<and> (map_of (timers w) i = Some player1 \<and> player1Time w = JNum n
          \<and> is_integer n \<and> - (2 ^ 53) \<le> n \<and> n < 2 ^ 53 \<longrightarrow>
          player1Time (step (Tick i) w) = JNum (n + 1)
          \<and> player2Time (step (Tick i) w) = player2Time w)
     \<and> (map_of (timers w) i = Some player2 \<and> player2Time w = JNum n
          \<and> is_integer n \<and> - (2 ^ 53) \<le> n \<and> n < 2 ^ 53 \<longrightarrow>
          player2Time (step (Tick i) w) = JNum (n + 1)
          \<and> player1Time (step (Tick i) w) = player1Time w)"
proof -
  have ok: "scheduler_ok w" unfolding assms by (rule scheduler_ok_reachable)
  have paused: "activePlayer w = None \<longrightarrow> timers w = [] \<and> step (Tick i) w = w"
    using ok by (auto simp: scheduler_ok_def)
  have alive: "activePlayer w = Some p \<longrightarrow> (\<exists>j. timers w = [(j, p)] \<and> intervalVar w = Some j)"
    using ok by (auto simp: scheduler_ok_def split: option.splits)
  have dead: "map_of (timers w) i = None \<longrightarrow> step (Tick i) w = w"
    by simp
  have owner: "map_of (timers w) i = Some p \<longrightarrow> activePlayer w = Some p"
    using ok by (auto simp: scheduler_ok_def split: option.splits if_splits)
  have one: "map_of (timers w) i = Some player1 \<and> player1Time w = JNum n
          \<and> is_integer n \<and> - (2 ^ 53) \<le> n \<and> n < 2 ^ 53 \<longrightarrow>
          player1Time (step (Tick i) w) = JNum (n + 1)
          \<and> player2Time (step (Tick i) w) = player2Time w"
    by (auto simp: rerender_state intervalCallback_def add_one_safe)
  have two: "map_of (timers w) i = Some player2 \<and> player2Time w = JNum n
          \<and> is_integer n \<and> - (2 ^ 53) \<le> n \<and> n < 2 ^ 53 \<longrightarrow>
          player2Time (step (Tick i) w) = JNum (n + 1)
          \<and> player1Time (step (Tick i) w) = player1Time w"
    by (auto simp: rerender_state intervalCallback_def add_one_safe)
  from paused alive dead owner one two show ?thesis by blast
qed

lemma tapped_world:
  "run [Tap player2] (mount None) =
     \<lparr>player1Time = JNum 0, player2Time = JNum 0, activePlayer = Some player1,
      storage = Some (stateToSave (JNum 0) (JNum 0)), timers = [(1, player1)],
      intervalVar = Some 1, nextTimer = 2\<rparr>"
  by (simp add: run_def mount_def loadEffect_None rerender_def Let_def saveEffect_def
      timerEffect_def timerCleanup_def handlePlayerAreaClick_def opponent_def)

lemma tapped_world_2:
  "run [Tap player1] (mount None) =
     \<lparr>player1Time = JNum 0, player2Time = JNum 0, activePlayer = Some player2,
      storage = Some (stateToSave (JNum 0) (JNum 0)), timers = [(1, player2)],
      intervalVar = Some 1, nextTimer = 2\<rparr>"
  by (simp add: run_def mount_def loadEffect_None rerender_def Let_def saveEffect_def
      timerEffect_def timerCleanup_def handlePlayerAreaClick_def opponent_def)

theorem tick_increments_active_witness:
  "timers (run [Tap player2] (mount None)) = [(1, player1)]
   \<and> player1Time (step (Tick 1) (run [Tap player2] (mount None))) = JNum 1
   \<and> player2Time (step (Tick 1) (run [Tap player2] (mount None))) = JNum 0
   \<and> timers (run [Tap player1] (mount None)) = [(1, player2)]
   \<and> player2Time (step (Tick 1) (run [Tap player1] (mount None))) = JNum 1
   \<and> player1Time (step (Tick 1) (run [Tap player1] (mount None))) = JNum 0
   \<and> step (Tick 1) (run [] (mount None)) = run [] (mount None)"
proof -
  have r: "is_integer 0 \<and> - (2 ^ 53) \<le> (0::rat) \<and> (0::rat) < 2 ^ 53"
    by (simp add: is_integer_def)
  have a1: "map_of (timers (run [Tap player2] (mount None))) 1 = Some player1
      \<and> player1Time (run [Tap player2] (mount None)) = JNum 0"
    by (simp add: tapped_world)
  have b1: "player2Time (run [Tap player2] (mount None)) = JNum 0"
    "timers (run [Tap player2] (mount None)) = [(1, player1)]"
    by (simp_all add: tapped_world)
  have a2: "map_of (timers (run [Tap player1] (mount None))) 1 = Some player2
      \<and> player2Time (run [Tap player1] (mount None)) = JNum 0"
    by (simp add: tapped_world_2)
  have b2: "player1Time (run [Tap player1] (mount None)) = JNum 0"
    "timers (run [Tap player1] (mount None)) = [(1, player2)]"
    by (simp_all add: tapped_world_2)
  have c: "activePlayer (run [] (mount None)) = None"
    by (simp add: run_def mount_activePlayer)
  have t1: "player1Time (step (Tick 1) (run [Tap player2] (mount None))) = JNum (0 + 1)
      \<and> player2Time (step (Tick 1) (run [Tap player2] (mount None)))
          = player2Time (run [Tap player2] (mount None))"
    using tick_increments_active [of "run [Tap player2] (mount None)" "[Tap player2]" None 1 player1 0]
      a1 r by blast
  have t2: "player2Time (step (Tick 1) (run [Tap player1] (mount None))) = JNum (0 + 1)
      \<and> player1Time (step (Tick 1) (run [Tap player1] (mount None)))
          = player1Time (run [Tap player1] (mount None))"
    using tick_increments_active [of "run [Tap player1] (mount None)" "[Tap player1]" None 1 player2 0]
      a2 r by blast
  have t3: "step (Tick 1) (run [] (mount None)) = run [] (mount None)"
    using tick_increments_active [of "run [] (mount None)" "[]" None 1 player1 0] c by blast
  from t1 t2 t3 show ?thesis by (simp only: b1 b2 add_0 simp_thms)
qed

subsection \<open>Reset\<close>

text \<open>
  Claim C3. Reset should leave the state \<open>(0, 0, None)\<close> and no stored record, so that
  a load finds nothing. The handler does remove the record. But it also sets the counters,
  and when one of them was not zero the render that follows runs the save effect, which
  writes a record of zeros. Evaluated after five ticks of player 1, at the state
  \<open>(5, 0, player1)\<close>: the state is reset to \<open>(0, 0, None)\<close>, the handler empties the
  storage, yet after the render the storage holds \<^verbatim>\<open>{"p1Time":0,"p2Time":0}\<close>, and a load
  reads that record.
\<close>

theorem reset_leaves_zero_record:
  "(let w = run [Tap player2, Tick 1, Tick 1, Tick 1, Tick 1, Tick 1] (mount None) in
      player1Time w = JNum 5 \<and> player2Time w = JNum 0 \<and> activePlayer w = Some player1
      \<and> player1Time (step Reset w) = JNum 0 \<and> player2Time (step Reset w) = JNum 0
      \<and> activePlayer (step Reset w) = None
      \<and> storage (handleReset w) = None
      \<and> storage (step Reset w) = Some (js ''{\"p1Time\":0,\"p2Time\":0}'')
      \<and> fst (loadEffect (storage (step Reset w))) = Some (JNum 0, JNum 0))"
proof -
  define w where "w = run [Tap player2, Tick 1, Tick 1, Tick 1, Tick 1, Tick 1] (mount None)"
  have before: "player1Time w = JNum 5 \<and> player2Time w = JNum 0 \<and> activePlayer w = Some player1"
    unfolding w_def by (rule five_ticks)
  have "loadEffect (Some (js ''{\"p1Time\":0,\"p2Time\":0}'')) =
      (Some (JNum 0, JNum 0), Some (js ''{\"p1Time\":0,\"p2Time\":0}''))"
    using loadEffect_stateToSave [of 0 0] by (simp add: zero_record)
  with before have "player1Time w = JNum 5 \<and> player2Time w = JNum 0 \<and> activePlayer w = Some player1
      \<and> player1Time (step Reset w) = JNum 0 \<and> player2Time (step Reset w) = JNum 0
      \<and> activePlayer (step Reset w) = None
      \<and> storage (handleReset w) = None
      \<and> storage (step Reset w) = Some (js ''{\"p1Time\":0,\"p2Time\":0}'')
      \<and> fst (loadEffect (storage (step Reset w))) = Some (JNum 0, JNum 0)"
    using reset_state [of w] reset_storage [of w] by simp
  then show ?thesis unfolding w_def Let_def .
qed

subsection \<open>Loading a missing or broken record\<close>

text \<open>
  Claim C4, as stated, fails: a record that parses but lacks \<^verbatim>\<open>p1Time\<close> is neither erased
  nor treated as absent. The load effect takes the field that is there and puts 0 for the
  one that is missing.
\<close>

theorem load_keeps_partial_record:
  "loadEffect (Some (js ''{\"p2Time\":7}'')) = (Some (JNum 0, JNum 7), Some (js ''{\"p2Time\":7}''))
   \<and> player1Time (mount (Some (js ''{\"p2Time\":7}''))) = JNum 0
   \<and> player2Time (mount (Some (js ''{\"p2Time\":7}''))) = JNum 7"
proof -
  have "loadEffect (Some (js ''{\"p2Time\":7}'')) =
      (Some (JNum 0, JNum 7), Some (js ''{\"p2Time\":7}''))"
    by code_simp
  then show ?thesis by (simp add: mount_times)
qed

text \<open>
  Claim C4, amended. The load effect raises no error. When nothing or the empty string is
  stored, it sets no counter and leaves the storage as it is. When the stored text does
  not parse, or is \<^verbatim>\<open>null\<close>, it sets no counter and erases the record. In these cases the
  counters are \<open>(0, 0)\<close> after mounting. When the text parses to an object, the record is
  kept and each counter is set from its field: 0 when the field is missing, the number when
  the field is a number. When it parses to any other value, the record is kept and both
  counters are set to 0.
\<close>

theorem load_fallback:
  "(st = None \<or> st = Some [] \<longrightarrow> loadEffect st = (None, st))
   \<and> (st = Some s \<and> s \<noteq> [] \<and> (JSON_parse s = None \<or> JSON_parse s = Some JNull) \<longrightarrow>
        loadEffect st = (None, None))
   \<and> (st = Some s \<and> s \<noteq> [] \<and> JSON_parse s = Some (JObj kvs) \<longrightarrow>
        loadEffect st =
          (Some (or_zero (map_of (rev kvs) (js ''p1Time'')), or_zero (map_of (rev kvs) (js ''p2Time''))), st))
   \<and> (st = Some s \<and> s \<noteq> [] \<and> JSON_parse s = Some v \<and> v \<noteq> JNull \<and> (\<forall>kvs. v \<noteq> JObj kvs) \<longrightarrow>
        loadEffect st = (Some (JNum 0, JNum 0), st))
   \<and> (fst (loadEffect st) = None \<longrightarrow>
        player1Time (mount st) = JNum 0 \<and> player2Time (mount st) = JNum 0)
   \<and> or_zero None = JNum 0
   \<and> or_zero (Some (JNum x)) = JNum x"
proof -
  have missing: "st = None \<or> st = Some [] \<longrightarrow> loadEffect st = (None, st)"
    by (auto simp: loadEffect_def load_try_def)
  have broken: "st = Some s \<and> s \<noteq> [] \<and> (JSON_parse s = None \<or> JSON_parse s = Some JNull) \<longrightarrow>
        loadEffect st = (None, None)"
    by (auto simp: loadEffect_def load_try_def get_prop_def)
  have object: "st = Some s \<and> s \<noteq> [] \<and> JSON_parse s = Some (JObj kvs) \<longrightarrow>
        loadEffect st =
          (Some (or_zero (map_of (rev kvs) (js ''p1Time'')), or_zero (map_of (rev kvs) (js ''p2Time''))), st)"
    by (auto simp: loadEffect_def load_try_def get_prop_def)
  have other: "st = Some s \<and> s \<noteq> [] \<and> JSON_parse s = Some v \<and> v \<noteq> JNull \<and> (\<forall>kvs. v \<noteq> JObj kvs) \<longrightarrow>
        loadEffect st = (Some (JNum 0, JNum 0), st)"
    by (cases v) (auto simp: loadEffect_def load_try_def get_prop_def or_zero_def)
  have zeros: "fst (loadEffect st) = None \<longrightarrow>
        player1Time (mount st) = JNum 0 \<and> player2Time (mount st) = JNum 0"
    by (simp add: mount_times)
  have orz: "or_zero None = JNum 0 \<and> or_zero (Some (JNum x)) = JNum x"
    by (simp add: or_zero_def)
  from missing broken object other zeros orz show ?thesis by blast
qed

theorem load_fallback_witness:
  "loadEffect None = (None, None)
   \<and> loadEffect (Some (js ''{oops'')) = (None, None)
   \<and> player1Time (mount (Some (js ''{oops''))) = JNum 0
   \<and> loadEffect (Some (js ''{\"p2Time\":7}''))
       = (Some (JNum 0, JNum 7), Some (js ''{\"p2Time\":7}''))
   \<and> loadEffect (Some (js ''[1]'')) = (Some (JNum 0, JNum 0), Some (js ''[1]''))"
proof -
  have ne: "js ''{oops'' \<noteq> []" "js ''{\"p2Time\":7}'' \<noteq> []" "js ''[1]'' \<noteq> []"
    by (simp_all add: js_def)
  have p1: "JSON_parse (js ''{oops'') = None" by code_simp
  have p2: "JSON_parse (js ''{\"p2Time\":7}'') = Some (JObj [(js ''p2Time'', JNum 7)])"
    by code_simp
  have p3: "JSON_parse (js ''[1]'') = Some (JArr [JNum 1])" by code_simp
  have m: "map_of (rev [(js ''p2Time'', JNum 7)]) (js ''p1Time'') = None"
    "map_of (rev [(js ''p2Time'', JNum 7)]) (js ''p2Time'') = Some (JNum 7)"
    by (simp_all add: js_def)
  have w1: "loadEffect None = (None, None)"
    using load_fallback [of None "[]" "[]" JNull 0] by simp
  have w2: "loadEffect (Some (js ''{oops'')) = (None, None)
      \<and> player1Time (mount (Some (js ''{oops''))) = JNum 0"
    using load_fallback [of "Some (js ''{oops'')" "js ''{oops''" "[]" JNull 0] ne p1 by simp
  have w3: "loadEffect (Some (js ''{\"p2Time\":7}''))
       = (Some (JNum 0, JNum 7), Some (js ''{\"p2Time\":7}''))"
    using load_fallback [of "Some (js ''{\"p2Time\":7}'')" "js ''{\"p2Time\":7}''"
        "[(js ''p2Time'', JNum 7)]" JNull 7] ne p2 m by simp
  have w4: "loadEffect (Some (js ''[1]'')) = (Some (JNum 0, JNum 0), Some (js ''[1]''))"
    using load_fallback [of "Some (js ''[1]'')" "js ''[1]''" "[]" "JArr [JNum 1]" 0] ne p3 by simp
  from w1 w2 w3 w4 show ?thesis by blast
qed

text \<open>
  A field that is present, truthy and not a number is not checked either: it becomes the
  counter.
\<close>

lemma load_keeps_non_numeric:
  "snd (loadEffect (Some (js ''{\"p1Time\":\"abc\",\"p2Time\":7}'')))
     = Some (js ''{\"p1Time\":\"abc\",\"p2Time\":7}'')
   \<and> player1Time (mount (Some (js ''{\"p1Time\":\"abc\",\"p2Time\":7}''))) = JStr (js ''abc'')
   \<and> player1Time (mount (Some (js ''{\"p1Time\":\"abc\",\"p2Time\":7}''))) \<noteq> JNum 0"
proof -
  have "loadEffect (Some (js ''{\"p1Time\":\"abc\",\"p2Time\":7}'')) =
      (Some (JStr (js ''abc''), JNum 7), Some (js ''{\"p1Time\":\"abc\",\"p2Time\":7}''))"
    by code_simp
  then show ?thesis by (simp add: mount_times)
qed

subsection \<open>The counters as non-negative integers\<close>

text \<open>
  Claim C5, as stated, fails: it ranges over any content of the storage, and the load
  effect takes a stored number as it is. From the record \<^verbatim>\<open>{"p1Time":-5,"p2Time":0}\<close> the
  first counter becomes \<open>- 5\<close>.
\<close>

theorem load_takes_negative:
  "\<not> is_count (player1Time (run [] (mount (Some (js ''{\"p1Time\":-5,\"p2Time\":0}'')))))"
proof -
  have "loadEffect (Some (js ''{\"p1Time\":-5,\"p2Time\":0}'')) =
     (Some (JNum (- 5), JNum 0), Some (js ''{\"p1Time\":-5,\"p2Time\":0}''))"
    by code_simp
  then show ?thesis by (simp add: run_def mount_times is_count_def)
qed

text \<open>
  Claim C5, amended. Let the storage the component is first mounted over be one from which
  the load effect takes nothing or two non-negative integers (an absent, empty or
  unparseable record, or a record written by the save effect, among others). Then in every
  state reached by taps, pauses, resets, ticks and reloads at most one player is active,
  both counters are non-negative integers, and no event other than a reset decreases a
  counter.
\<close>

theorem counters_stay_counts:
  assumes "loads_counts st" and "w = run es (mount st)"
  shows "\<not> (player1IsActive w \<and> player2IsActive w)
     \<and> is_count (player1Time w) \<and> is_count (player2Time w)
     \<and> (e \<noteq> Reset \<longrightarrow>
          le_count (player1Time w) (player1Time (step e w))
          \<and> le_count (player2Time w) (player2Time (step e w)))"
proof -
  have c: "counting w" unfolding assms(2) by (rule counting_run [OF counting_mount [OF assms(1)]])
  then have "is_count (player1Time w) \<and> is_count (player2Time w)" by (simp add: counting_def)
  moreover have "e \<noteq> Reset \<longrightarrow>
          le_count (player1Time w) (player1Time (step e w))
          \<and> le_count (player2Time w) (player2Time (step e w))"
    using counting_step_times [OF c] by blast
  ultimately show ?thesis using not_both_active [of w] by blast
qed

theorem counters_stay_counts_witness:
  "loads_counts (Some (js ''{\"p1Time\":12,\"p2Time\":7}''))
   \<and> is_count (player1Time (run [Tap player2, Tick 1, Reload]
                   (mount (Some (js ''{\"p1Time\":12,\"p2Time\":7}'')))))
   \<and> le_count
         (player1Time (run [Tap player2, Tick 1, Reload]
                   (mount (Some (js ''{\"p1Time\":12,\"p2Time\":7}'')))))
         (player1Time (step (Tap player2) (run [Tap player2, Tick 1, Reload]
                   (mount (Some (js ''{\"p1Time\":12,\"p2Time\":7}''))))))"
proof -
  have "is_count (JNum 12)" "is_count (JNum 7)"
    using is_count_of_nat [of 12] is_count_of_nat [of 7] by simp_all
  then have l: "loads_counts (Some (js ''{\"p1Time\":12,\"p2Time\":7}''))"
    by (simp add: loads_counts_def loadEffect_12_7)
  have "Tap player2 \<noteq> Reset" by simp
  with l show ?thesis
    using counters_stay_counts [OF l refl, of "[Tap player2, Tick 1, Reload]" "Tap player2"]
    by blast
qed

subsection \<open>Saving and loading\<close>

text \<open>
  Claim C6. For all non-negative integers \<open>a\<close> and \<open>b\<close>: when the save effect has written
  the counters \<open>(a, b)\<close>, the load effect, reading the storage as the save left it, hands
  exactly \<open>(a, b)\<close> to the setters and leaves the record in place.
\<close>

theorem save_load_roundtrip:
  "loadEffect (storage (saveEffect (w\<lparr>player1Time := JNum (of_nat a), player2Time := JNum (of_nat b)\<rparr>)))
     = (Some (JNum (of_nat a), JNum (of_nat b)),
        storage (saveEffect (w\<lparr>player1Time := JNum (of_nat a), player2Time := JNum (of_nat b)\<rparr>)))"
  by (simp add: saveEffect_def loadEffect_stateToSave)

subsection \<open>The start\<close>

text \<open>
  Claim C7. Whatever the storage holds, the component is paused once it is mounted. Over
  the record \<^verbatim>\<open>{"p1Time":12,"p2Time":7}\<close> the counters are restored to \<open>(12, 7)\<close> and the
  clock is paused all the same: the active player is never read from the storage.
\<close>

theorem starts_paused:
  "activePlayer (mount st) = None
   \<and> player1Time (mount (Some (js ''{\"p1Time\":12,\"p2Time\":7}''))) = JNum 12
   \<and> player2Time (mount (Some (js ''{\"p1Time\":12,\"p2Time\":7}''))) = JNum 7
   \<and> activePlayer (mount (Some (js ''{\"p1Time\":12,\"p2Time\":7}''))) = None"
  by (simp add: mount_activePlayer mount_times loadEffect_12_7)

subsection \<open>Time adjustments\<close>

text \<open>
  Claim C8. For the counters 30 and 90 the adjustments are 1.50 for player 1 and 0.50 for
  player 2; for two zero counters both are 1.00: the quotient is not formed when the total
  is zero.
\<close>

theorem adjustment_formula:
  "player1Adjustment 30 90 = 3 / 2 \<and> player2Adjustment 30 90 = 1 / 2
   \<and> player1Adjustment 0 0 = 1 \<and> player2Adjustment 0 0 = 1"
  by (simp add: player1Adjustment_def player2Adjustment_def totalTime_def)

subsection \<open>One wake lock\<close>

text \<open>
  The two tests are as the source writes them: an acquire attempt made while
  \<^verbatim>\<open>wakeLockRef\<close> refers to a sentinel that is not released changes nothing, and a release
  made while it refers to no such sentinel changes nothing. In every run from the mount in
  which no acquire attempt starts while a request is still unanswered, at most one
  sentinel is live.
\<close>

lemma one_live_without_overlap:
  "(holding k \<longrightarrow> requestWakeLock k = k)
   \<and> (\<not> holding k \<longrightarrow> releaseWakeLock k = k)
   \<and> (no_overlap supported es (wl_mount supported) \<longrightarrow>
        length (live (wl_run supported es (wl_mount supported))) \<le> 1)"
  using request_skipped [of k] release_noop [of k]
    wl_inv_one_live [OF wl_inv_run [OF wl_inv_mount, of supported es]]
  by blast

text \<open>
  Claim C9. The controller should hold at most one live sentinel at a time. It does not:
  \<^verbatim>\<open>requestWakeLock\<close> tests the reference before the \<^verbatim>\<open>await\<close> and stores the sentinel after
  it. Evaluated for a tap on the area of player 2 and a tap on the area of player 1 before
  the platform has answered the first request: both attempts pass the test, the platform
  grants both requests, two sentinels are live and \<^verbatim>\<open>wakeLockRef\<close> refers to the second
  only. The pause that follows releases the second; the first stays live and no reference
  to it is left.
\<close>

theorem overlapping_requests_two_live:
  "live (wl_run True [ActiveChanged (Some player1), ActiveChanged (Some player2), Granted, Granted]
           (wl_mount True)) = [0, 1]
   \<and> wakeLockRef (wl_run True [ActiveChanged (Some player1), ActiveChanged (Some player2), Granted, Granted]
           (wl_mount True)) = Some 1
   \<and> live (wl_run True
           [ActiveChanged (Some player1), ActiveChanged (Some player2), Granted, Granted,
            ActiveChanged None]
           (wl_mount True)) = [0]
   \<and> wakeLockRef (wl_run True
           [ActiveChanged (Some player1), ActiveChanged (Some player2), Granted, Granted,
            ActiveChanged None]
           (wl_mount True)) = None"
  by (simp add: wl_run_def wl_mount_def wakeLockEffect_def wakeLockCleanup_def releaseWakeLock_def
      requestWakeLock_def requestGranted_def released_def)

subsection \<open>What pause and a tap leave alone\<close>

text \<open>
  Claim C10. In every state, pausing and tapping either area leave both counters (and the
  stored record) as they were: the handlers update \<^verbatim>\<open>activePlayer\<close> and nothing else.
\<close>

theorem pause_and_tap_keep_times:
  "handlePause w = w\<lparr>activePlayer := None\<rparr>
   \<and> handlePlayerAreaClick X w = w\<lparr>activePlayer := Some (opponent X)\<rparr>
   \<and> player1Time (step Pause w) = player1Time w
   \<and> player2Time (step Pause w) = player2Time w
   \<and> storage (step Pause w) = storage w
   \<and> player1Time (step (Tap X) w) = player1Time w
   \<and> player2Time (step (Tap X) w) = player2Time w
   \<and> storage (step (Tap X) w) = storage w"
  by (simp add: rerender_state rerender_storage handlePlayerAreaClick_def handlePause_def)

end
